theory Spec2Isabelle
  imports Complex_Main "HOL-Library.Word"
begin

unbundle bit_operations_syntax

section \<open>JavaScript values\<close>

text \<open>
  A JavaScript string is modelled by the list of its code points (what iterating the
  string yields); an unpaired surrogate is a code point in the range D800..DFFF.
  Property keys, URLs and other literals of the source are plain \<open>string\<close>s.
  JavaScript numbers are modelled by \<open>real\<close>; NaN and the infinities are outside the
  model. The arithmetic of the retry delay is exact. The average of a histogram is
  computed with the division and the multiplication of doubles, which are functions
  of the platform.
\<close>

type_synonym jsstring = "nat list"

definition lit :: "string \<Rightarrow> jsstring" where
  "lit s = map of_char s"

datatype json =
    JNull
  | JBool bool
  | JNum real
  | JStr jsstring
  | JArr "json list"
  | JObj "(string \<times> json) list"

text \<open>
  An object (\<open>Record<string, unknown>\<close>) is the list of its own properties in
  insertion order. Assigning a property replaces the value where the key exists and
  appends the property otherwise.
\<close>

type_synonym obj = "(string \<times> json) list"

fun obj_set :: "string \<Rightarrow> json \<Rightarrow> obj \<Rightarrow> obj" where
  "obj_set k v [] = [(k, v)]"
| "obj_set k v (p # ps) = (if fst p = k then (k, v) # ps else p # obj_set k v ps)"

definition obj_keys :: "obj \<Rightarrow> string list" where
  "obj_keys ob = map fst ob"

definition obj_get :: "obj \<Rightarrow> string \<Rightarrow> json option" where
  "obj_get ob k = map_of ob k"

text \<open>The spread \<open>...src\<close> inside an object literal under construction.\<close>

definition spread_into :: "obj \<Rightarrow> obj \<Rightarrow> obj" where
  "spread_into target src = fold (\<lambda>(k, v). obj_set k v) src target"

text \<open>The object literal \<open>{ ...a, ...b }\<close>: a fresh object receiving both spreads.\<close>

definition spread2 :: "obj \<Rightarrow> obj \<Rightarrow> obj" where
  "spread2 a b = spread_into (spread_into [] a) b"

text \<open>The object literal \<open>{ ...a, ...b, ...c }\<close>.\<close>

definition spread3 :: "obj \<Rightarrow> obj \<Rightarrow> obj \<Rightarrow> obj" where
  "spread3 a b c = spread_into (spread_into (spread_into [] a) b) c"

text \<open>
  Objects live in a store, so that two loggers can be asked whether they share a
  context object. An address is an index into the list of objects allocated so far.
\<close>

type_synonym ref = nat
type_synonym heap = "obj list"

definition alloc :: "heap \<Rightarrow> obj \<Rightarrow> heap \<times> ref" where
  "alloc h ob = (h @ [ob], length h)"

definition deref :: "heap \<Rightarrow> ref \<Rightarrow> obj" where
  "deref h r = (if r < length h then h ! r else [])"

section \<open>The transport as seen by its callers (src/src/http.ts)\<close>

datatype http_method = GET | POST

record http_request =
  req_method :: http_method
  req_url :: string
  req_body :: "json option"

record HttpResponse =
  status :: int
  data :: "json option"

text \<open>
  An awaited call either throws or returns. What is thrown is an \<open>Error\<close> (its
  message) or \<open>null\<close>: \<open>executeWithRetry\<close> ends with \<open>throw lastError!\<close>, which
  throws \<open>null\<close> when the loop made no attempt.
\<close>

datatype thrown = JsError jsstring | JsNull

datatype 'a outcome = Throws thrown | Returns 'a

text \<open>
  Functions of the platform that the source calls and that are not modelled here:
  the string conversion of a template literal (\<open>`${v}`\<close>), \<open>encodeURIComponent\<close>
  (\<open>None\<close> when it throws \<open>URIError\<close>), \<open>JSON.parse\<close> (\<open>None\<close> when it throws), and
  the division and the multiplication of two doubles where the metric exporter
  computes an average: the result is the exact one rounded to a double.
\<close>

record platform =
  to_string :: "json \<Rightarrow> jsstring"
  encodeURIComponent :: "jsstring \<Rightarrow> string option"
  JSON_parse :: "jsstring \<Rightarrow> json option"
  double_div :: "real \<Rightarrow> real \<Rightarrow> real"
  double_mul :: "real \<Rightarrow> real \<Rightarrow> real"

text \<open>Reading \<open>.message\<close> of a caught value: \<open>null.message\<close> throws a \<open>TypeError\<close>.\<close>

definition null_message_TypeError :: thrown where
  "null_message_TypeError = JsError (lit ''Cannot read properties of null'')"

definition error_message :: "thrown \<Rightarrow> jsstring outcome" where
  "error_message e = (case e of JsError m \<Rightarrow> Returns m | JsNull \<Rightarrow> Throws null_message_TypeError)"

text \<open>
  The accumulators, the console capture and the exporters own an \<open>HttpClient\<close> and
  await its \<open>post\<close> and \<open>get\<close>. For them the network is a \<open>world\<close>: what the k-th
  call of the client settles to (after the client's own retries), and the requests
  issued so far. The unit tests of the repository replace \<open>HttpClient\<close> at the same
  boundary.
\<close>

record world =
  respond :: "nat \<Rightarrow> http_request \<Rightarrow> HttpResponse outcome"
  requests :: "http_request list"

definition http_call :: "world \<Rightarrow> http_request \<Rightarrow> HttpResponse outcome \<times> world" where
  "http_call w rq = (respond w (length (requests w)) rq, w\<lparr>requests := requests w @ [rq]\<rparr>)"

definition http_post :: "world \<Rightarrow> string \<Rightarrow> json \<Rightarrow> HttpResponse outcome \<times> world" where
  "http_post w u b = http_call w \<lparr>req_method = POST, req_url = u, req_body = Some b\<rparr>"

definition http_get :: "world \<Rightarrow> string \<Rightarrow> HttpResponse outcome \<times> world" where
  "http_get w u = http_call w \<lparr>req_method = GET, req_url = u, req_body = None\<rparr>"

definition BASE_LOGS_URL :: string where
  "BASE_LOGS_URL = ''https://logs.logdot.io/api/v1''"

definition BASE_METRICS_URL :: string where
  "BASE_METRICS_URL = ''https://metrics.logdot.io/api/v1''"

section \<open>The log accumulator (src/src/logger.ts)\<close>

datatype LogLevel = Debug | Info | Warn | Error

fun level_string :: "LogLevel \<Rightarrow> jsstring" where
  "level_string Debug = lit ''debug''"
| "level_string Info = lit ''info''"
| "level_string Warn = lit ''warn''"
| "level_string Error = lit ''error''"

record LogEntry =
  message :: jsstring
  level :: LogLevel
  tags :: "obj option"

record LoggerConfig =
  apiKey :: jsstring
  cfg_hostname :: jsstring
  timeout :: "real option"
  retryAttempts :: "nat option"
  retryDelayMs :: "real option"
  retryMaxDelayMs :: "real option"
  debug :: "bool option"

text \<open>
  The fields of \<open>LogDotLogger\<close>. The \<open>HttpClient\<close> it owns is the \<open>world\<close> above;
  \<open>ctx\<close> is the reference held in \<open>this.context\<close>.
\<close>

record LogDotLogger =
  hostname :: jsstring
  debugEnabled :: bool
  batchMode :: bool
  batchQueue :: "LogEntry list"
  ctx :: ref
  config :: LoggerConfig

definition ENDPOINT_SINGLE :: string where
  "ENDPOINT_SINGLE = ''/logs''"

definition ENDPOINT_BATCH :: string where
  "ENDPOINT_BATCH = ''/logs/batch''"

text \<open>\<open>new LogDotLogger(config, context)\<close> with the context object given.\<close>

definition LogDotLogger_new :: "LoggerConfig \<Rightarrow> ref \<Rightarrow> LogDotLogger" where
  "LogDotLogger_new c r =
     \<lparr>hostname = cfg_hostname c,
      debugEnabled = (case debug c of None \<Rightarrow> False | Some d \<Rightarrow> d),
      batchMode = False,
      batchQueue = [],
      ctx = r,
      config = c\<rparr>"

text \<open>\<open>new LogDotLogger(config)\<close>: the default parameter allocates a fresh \<open>{}\<close>.\<close>

definition LogDotLogger_new_default :: "heap \<Rightarrow> LoggerConfig \<Rightarrow> heap \<times> LogDotLogger" where
  "LogDotLogger_new_default h c = (case alloc h [] of (h', r) \<Rightarrow> (h', LogDotLogger_new c r))"

text \<open>
  \<open>withContext\<close>: the literal \<open>{ ...this.context, ...context }\<close> is a new object; the
  new logger is built from the receiver's config and that object. The receiver is
  not assigned to.
\<close>

definition withContext :: "heap \<Rightarrow> LogDotLogger \<Rightarrow> obj \<Rightarrow> heap \<times> LogDotLogger" where
  "withContext h this c =
     (let mergedContext = spread2 (deref h (ctx this)) c
      in case alloc h mergedContext of (h', r) \<Rightarrow> (h', LogDotLogger_new (config this) r))"

definition getContext :: "heap \<Rightarrow> LogDotLogger \<Rightarrow> obj" where
  "getContext h this = spread_into [] (deref h (ctx this))"

text \<open>\<open>mergeTags\<close>: \<open>None\<close> is \<open>undefined\<close>; spreading \<open>undefined\<close> adds nothing.\<close>

definition mergeTags :: "heap \<Rightarrow> LogDotLogger \<Rightarrow> obj option \<Rightarrow> obj option" where
  "mergeTags h this tgs =
     (if length (obj_keys (deref h (ctx this))) = 0 \<and> tgs = None then None
      else Some (spread2 (deref h (ctx this)) (case tgs of None \<Rightarrow> [] | Some t \<Rightarrow> t)))"

definition clearBatch :: "LogDotLogger \<Rightarrow> LogDotLogger" where
  "clearBatch this = this\<lparr>batchQueue := []\<rparr>"

definition beginBatch :: "LogDotLogger \<Rightarrow> LogDotLogger" where
  "beginBatch this = clearBatch (this\<lparr>batchMode := True\<rparr>)"

definition endBatch :: "LogDotLogger \<Rightarrow> LogDotLogger" where
  "endBatch this = clearBatch (this\<lparr>batchMode := False\<rparr>)"

definition getBatchSize :: "LogDotLogger \<Rightarrow> nat" where
  "getBatchSize this = length (batchQueue this)"

text \<open>
  The conditional spread \<open>...(entry.tags && Object.keys(entry.tags).length > 0 ?
  { tags: entry.tags } : {})\<close> of \<open>sendBatch\<close>, and the same test before
  \<open>payload.tags = entry.tags\<close> in \<open>sendLog\<close>.
\<close>

definition tags_property :: "obj option \<Rightarrow> obj" where
  "tags_property tgs =
     (case tgs of
        None \<Rightarrow> []
      | Some t \<Rightarrow> if length (obj_keys t) > 0 then [(''tags'', JObj t)] else [])"

definition single_payload :: "LogDotLogger \<Rightarrow> LogEntry \<Rightarrow> obj" where
  "single_payload this entry =
     spread_into
       [(''message'', JStr (message entry)),
        (''severity'', JStr (level_string (level entry))),
        (''hostname'', JStr (hostname this))]
       (tags_property (tags entry))"

definition batch_entry :: "LogEntry \<Rightarrow> obj" where
  "batch_entry entry =
     spread_into
       [(''message'', JStr (message entry)),
        (''severity'', JStr (level_string (level entry)))]
       (tags_property (tags entry))"

definition batch_payload :: "LogDotLogger \<Rightarrow> obj" where
  "batch_payload this =
     [(''hostname'', JStr (hostname this)),
      (''logs'', JArr (map (\<lambda>entry. JObj (batch_entry entry)) (batchQueue this)))]"

text \<open>
  \<open>sendLog\<close> and \<open>sendBatch\<close> give what the awaited call settles to, the logger after
  the call and the world after the call. The \<open>catch\<close> turns a throwing \<open>post\<close> into
  \<open>false\<close>; its template literal reads \<open>error.message\<close> before \<open>debugLog\<close> is called,
  whatever \<open>debugEnabled\<close> is. What \<open>debugLog\<close> prints is left out.
\<close>

definition sendLog :: "world \<Rightarrow> LogDotLogger \<Rightarrow> LogEntry
    \<Rightarrow> bool outcome \<times> LogDotLogger \<times> world" where
  "sendLog w this entry =
     (case http_post w (BASE_LOGS_URL @ ENDPOINT_SINGLE) (JObj (single_payload this entry)) of
        (Returns response, w') \<Rightarrow>
          if status response = 200 \<or> status response = 201 then (Returns True, this, w')
          else (Returns False, this, w')
      | (Throws e, w') \<Rightarrow>
          (case error_message e of
             Returns m \<Rightarrow> (Returns False, this, w')
           | Throws t \<Rightarrow> (Throws t, this, w')))"

definition logger_log :: "heap \<Rightarrow> world \<Rightarrow> LogDotLogger \<Rightarrow> LogLevel \<Rightarrow> jsstring \<Rightarrow> obj option
    \<Rightarrow> bool outcome \<times> LogDotLogger \<times> world" where
  "logger_log h w this lvl msg tgs =
     (let mergedTags = mergeTags h this tgs;
          entry = \<lparr>message = msg, level = lvl, tags = mergedTags\<rparr>
      in if batchMode this then (Returns True, this\<lparr>batchQueue := batchQueue this @ [entry]\<rparr>, w)
         else sendLog w this entry)"

definition logger_debug :: "heap \<Rightarrow> world \<Rightarrow> LogDotLogger \<Rightarrow> jsstring \<Rightarrow> obj option
    \<Rightarrow> bool outcome \<times> LogDotLogger \<times> world" where
  "logger_debug h w this msg tgs = logger_log h w this Debug msg tgs"

definition logger_info :: "heap \<Rightarrow> world \<Rightarrow> LogDotLogger \<Rightarrow> jsstring \<Rightarrow> obj option
    \<Rightarrow> bool outcome \<times> LogDotLogger \<times> world" where
  "logger_info h w this msg tgs = logger_log h w this Info msg tgs"

definition logger_warn :: "heap \<Rightarrow> world \<Rightarrow> LogDotLogger \<Rightarrow> jsstring \<Rightarrow> obj option
    \<Rightarrow> bool outcome \<times> LogDotLogger \<times> world" where
  "logger_warn h w this msg tgs = logger_log h w this Warn msg tgs"

definition logger_error :: "heap \<Rightarrow> world \<Rightarrow> LogDotLogger \<Rightarrow> jsstring \<Rightarrow> obj option
    \<Rightarrow> bool outcome \<times> LogDotLogger \<times> world" where
  "logger_error h w this msg tgs = logger_log h w this Error msg tgs"

definition sendBatch :: "world \<Rightarrow> LogDotLogger \<Rightarrow> bool outcome \<times> LogDotLogger \<times> world" where
  "sendBatch w this =
     (if \<not> batchMode this \<or> length (batchQueue this) = 0 then (Returns False, this, w)
      else
        case http_post w (BASE_LOGS_URL @ ENDPOINT_BATCH) (JObj (batch_payload this)) of
          (Returns response, w') \<Rightarrow>
            if status response = 200 \<or> status response = 201
            then (Returns True, clearBatch this, w')
            else (Returns False, this, w')
        | (Throws e, w') \<Rightarrow>
            (case error_message e of
               Returns m \<Rightarrow> (Returns False, this, w')
             | Throws t \<Rightarrow> (Throws t, this, w')))"

section \<open>The retrying transport (src/src/http.ts)\<close>

record RetryConfig =
  maxAttempts :: nat
  baseDelayMs :: real
  maxDelayMs :: real

record HttpClientConfig =
  hcc_apiKey :: jsstring
  hcc_timeout :: "real option"
  hcc_debug :: "bool option"
  hcc_maxAttempts :: "nat option"
  hcc_baseDelayMs :: "real option"
  hcc_maxDelayMs :: "real option"

record HttpClient =
  hc_apiKey :: jsstring
  hc_timeout :: real
  hc_debugEnabled :: bool
  retryConfig :: RetryConfig

definition nullish :: "'a option \<Rightarrow> 'a \<Rightarrow> 'a" where
  "nullish v d = (case v of None \<Rightarrow> d | Some x \<Rightarrow> x)"

definition HttpClient_new :: "HttpClientConfig \<Rightarrow> HttpClient" where
  "HttpClient_new c =
     \<lparr>hc_apiKey = hcc_apiKey c,
      hc_timeout = nullish (hcc_timeout c) 5000,
      hc_debugEnabled = nullish (hcc_debug c) False,
      retryConfig =
        \<lparr>maxAttempts = nullish (hcc_maxAttempts c) 3,
         baseDelayMs = nullish (hcc_baseDelayMs c) 1000,
         maxDelayMs = nullish (hcc_maxDelayMs c) 30000\<rparr>\<rparr>"

text \<open>\<open>calculateBackoff\<close>; \<open>r\<close> is the value \<open>Math.random()\<close> returns.\<close>

definition calculateBackoff :: "RetryConfig \<Rightarrow> nat \<Rightarrow> real \<Rightarrow> real" where
  "calculateBackoff rc attempt r =
     (let delay = baseDelayMs rc * 2 ^ attempt;
          jitter = r * 0.3 * delay
      in min (delay + jitter) (maxDelayMs rc))"

text \<open>
  \<open>executeWithRetry\<close>. \<open>fn k\<close> is what the call of \<open>fn\<close> in iteration \<open>k\<close> settles
  to and \<open>rnd k\<close> the random number drawn in iteration \<open>k\<close>. The result records what
  the caller gets, how many times \<open>fn\<close> was called and the delays slept.
\<close>

record 'a retry_result =
  settled :: "'a outcome"
  attempts :: nat
  slept :: "real list"

function retry_loop :: "RetryConfig \<Rightarrow> (nat \<Rightarrow> 'a outcome) \<Rightarrow> (nat \<Rightarrow> real)
    \<Rightarrow> nat \<Rightarrow> thrown \<Rightarrow> real list \<Rightarrow> 'a retry_result" where
  "retry_loop rc fn rnd attempt lastError sl =
     (if attempt < maxAttempts rc then
        (case fn attempt of
           Returns v \<Rightarrow> \<lparr>settled = Returns v, attempts = attempt + 1, slept = sl\<rparr>
         | Throws e \<Rightarrow>
             if int attempt < int (maxAttempts rc) - 1
             then retry_loop rc fn rnd (attempt + 1) e
                    (sl @ [calculateBackoff rc attempt (rnd attempt)])
             else retry_loop rc fn rnd (attempt + 1) e sl)
      else \<lparr>settled = Throws lastError, attempts = attempt, slept = sl\<rparr>)"
  by pat_completeness auto
termination
  by (relation "measure (\<lambda>(rc, fn, rnd, attempt, lastError, sl). maxAttempts rc - attempt)") auto

definition executeWithRetry :: "RetryConfig \<Rightarrow> (nat \<Rightarrow> 'a outcome) \<Rightarrow> (nat \<Rightarrow> real)
    \<Rightarrow> 'a retry_result" where
  "executeWithRetry rc fn rnd = retry_loop rc fn rnd 0 JsNull []"

text \<open>
  One attempt of \<open>post\<close> (and of \<open>get\<close>, which differs in the request only):
  \<open>fetch\<close> rejects (connection error, or the abort of the timeout), or it resolves
  with a status and reading the body rejects, or the body text arrives.
\<close>

datatype fetch_outcome =
    FetchRejects jsstring
  | TextRejects int jsstring
  | Completes int jsstring

definition request_attempt :: "platform \<Rightarrow> fetch_outcome \<Rightarrow> HttpResponse outcome" where
  "request_attempt P f =
     (case f of
        FetchRejects e \<Rightarrow> Throws (JsError e)
      | TextRejects st e \<Rightarrow> Throws (JsError e)
      | Completes st txt \<Rightarrow>
          Returns \<lparr>status = st, data = (if txt = [] then None else JSON_parse P txt)\<rparr>)"

definition HttpClient_post :: "platform \<Rightarrow> HttpClient \<Rightarrow> (nat \<Rightarrow> fetch_outcome) \<Rightarrow> (nat \<Rightarrow> real)
    \<Rightarrow> HttpResponse retry_result" where
  "HttpClient_post P this fetches rnd =
     executeWithRetry (retryConfig this) (\<lambda>k. request_attempt P (fetches k)) rnd"

section \<open>The bound metrics client (src/src/metrics.ts)\<close>

record MetricEntry =
  m_name :: jsstring
  m_value :: real
  m_unit :: jsstring
  m_tags :: "obj option"

record BoundMetricsClient =
  entityId :: jsstring
  m_debugEnabled :: bool
  m_batchMode :: bool
  multiBatchMode :: bool
  batchMetricName :: jsstring
  batchUnit :: jsstring
  m_batchQueue :: "MetricEntry list"
  lastError :: jsstring
  lastHttpCode :: int

definition BoundMetricsClient_new :: "jsstring \<Rightarrow> bool \<Rightarrow> BoundMetricsClient" where
  "BoundMetricsClient_new eid dbg =
     \<lparr>entityId = eid, m_debugEnabled = dbg, m_batchMode = False, multiBatchMode = False,
      batchMetricName = [], batchUnit = [], m_batchQueue = [], lastError = [],
      lastHttpCode = -1\<rparr>"

definition M_ENDPOINT_SINGLE :: string where
  "M_ENDPOINT_SINGLE = ''/metrics''"

definition M_ENDPOINT_BATCH :: string where
  "M_ENDPOINT_BATCH = ''/metrics/batch''"

definition formatTags :: "platform \<Rightarrow> obj option \<Rightarrow> jsstring list option" where
  "formatTags P tgs =
     (case tgs of
        None \<Rightarrow> None
      | Some t \<Rightarrow>
          if length (obj_keys t) = 0 then None
          else Some (map (\<lambda>(k, v). lit k @ lit '':'' @ to_string P v) t))"

definition tags_json :: "jsstring list \<Rightarrow> json" where
  "tags_json ts = JArr (map JStr ts)"

definition m_clearBatch :: "BoundMetricsClient \<Rightarrow> BoundMetricsClient" where
  "m_clearBatch this = this\<lparr>m_batchQueue := []\<rparr>"

definition http_status_error :: "platform \<Rightarrow> int \<Rightarrow> jsstring" where
  "http_status_error P st = lit ''HTTP '' @ to_string P (JNum (real_of_int st))"

text \<open>
  \<open>send\<close>: the result, the client after the call, the world after the call. In the
  \<open>catch\<close>, \<open>(error as Error).message\<close> is read from whatever was thrown.
\<close>

definition m_send :: "platform \<Rightarrow> world \<Rightarrow> BoundMetricsClient \<Rightarrow> jsstring \<Rightarrow> real \<Rightarrow> jsstring
    \<Rightarrow> obj option \<Rightarrow> bool outcome \<times> BoundMetricsClient \<times> world" where
  "m_send P w this nm v un tgs =
     (if m_batchMode this then
        (Returns False,
         this\<lparr>lastError := lit ''Cannot use send() in batch mode. Use add() or addMetric() instead.''\<rparr>,
         w)
      else
        let payload =
              [(''entity_id'', JStr (entityId this)), (''name'', JStr nm),
               (''value'', JNum v), (''unit'', JStr un)]
              @ (case formatTags P tgs of None \<Rightarrow> [] | Some ts \<Rightarrow> [(''tags'', tags_json ts)])
        in case http_post w (BASE_METRICS_URL @ M_ENDPOINT_SINGLE) (JObj payload) of
             (Returns response, w') \<Rightarrow>
               let this1 = this\<lparr>lastHttpCode := status response\<rparr>
               in if status response = 200 \<or> status response = 201
                  then (Returns True, this1\<lparr>lastError := []\<rparr>, w')
                  else (Returns False, this1\<lparr>lastError := http_status_error P (status response)\<rparr>, w')
           | (Throws e, w') \<Rightarrow>
               (case error_message e of
                  Returns m \<Rightarrow> (Returns False, this\<lparr>lastError := m\<rparr>, w')
                | Throws t \<Rightarrow> (Throws t, this, w')))"

definition m_beginBatch :: "BoundMetricsClient \<Rightarrow> jsstring \<Rightarrow> jsstring \<Rightarrow> BoundMetricsClient" where
  "m_beginBatch this metricName un =
     m_clearBatch (this\<lparr>m_batchMode := True, multiBatchMode := False,
                        batchMetricName := metricName, batchUnit := un\<rparr>)"

definition add :: "BoundMetricsClient \<Rightarrow> real \<Rightarrow> obj option \<Rightarrow> bool \<times> BoundMetricsClient" where
  "add this v tgs =
     (if \<not> m_batchMode this \<or> multiBatchMode this then
        (False, this\<lparr>lastError := lit ''Not in single-metric batch mode. Call beginBatch() first.''\<rparr>)
      else
        (True,
         this\<lparr>m_batchQueue := m_batchQueue this
                  @ [\<lparr>m_name = batchMetricName this, m_value = v, m_unit = batchUnit this,
                       m_tags = tgs\<rparr>]\<rparr>))"

definition beginMultiBatch :: "BoundMetricsClient \<Rightarrow> BoundMetricsClient" where
  "beginMultiBatch this = m_clearBatch (this\<lparr>m_batchMode := True, multiBatchMode := True\<rparr>)"

definition addMetric :: "BoundMetricsClient \<Rightarrow> jsstring \<Rightarrow> real \<Rightarrow> jsstring \<Rightarrow> obj option
    \<Rightarrow> bool \<times> BoundMetricsClient" where
  "addMetric this nm v un tgs =
     (if \<not> multiBatchMode this then
        (False, this\<lparr>lastError := lit ''Not in multi-metric batch mode. Call beginMultiBatch() first.''\<rparr>)
      else
        (True,
         this\<lparr>m_batchQueue := m_batchQueue this
                  @ [\<lparr>m_name = nm, m_value = v, m_unit = un, m_tags = tgs\<rparr>]\<rparr>))"

definition formatted_metric :: "platform \<Rightarrow> BoundMetricsClient \<Rightarrow> MetricEntry \<Rightarrow> obj" where
  "formatted_metric P this entry =
     [(''value'', JNum (m_value entry)), (''unit'', JStr (m_unit entry))]
     @ (if multiBatchMode this then [(''name'', JStr (m_name entry))] else [])
     @ (case formatTags P (m_tags entry) of None \<Rightarrow> [] | Some ts \<Rightarrow> [(''tags'', tags_json ts)])"

definition m_sendBatch :: "platform \<Rightarrow> world \<Rightarrow> BoundMetricsClient
    \<Rightarrow> bool outcome \<times> BoundMetricsClient \<times> world" where
  "m_sendBatch P w this =
     (if \<not> m_batchMode this \<or> length (m_batchQueue this) = 0 then (Returns False, this, w)
      else
        let payload =
              [(''entity_id'', JStr (entityId this)),
               (''metrics'', JArr (map (\<lambda>e. JObj (formatted_metric P this e)) (m_batchQueue this)))]
              @ (if \<not> multiBatchMode this then [(''name'', JStr (batchMetricName this))] else [])
        in case http_post w (BASE_METRICS_URL @ M_ENDPOINT_BATCH) (JObj payload) of
             (Returns response, w') \<Rightarrow>
               let this1 = this\<lparr>lastHttpCode := status response\<rparr>
               in if status response = 200 \<or> status response = 201
                  then (Returns True, m_clearBatch (this1\<lparr>lastError := []\<rparr>), w')
                  else (Returns False, this1\<lparr>lastError := http_status_error P (status response)\<rparr>, w')
           | (Throws e, w') \<Rightarrow>
               (case error_message e of
                  Returns m \<Rightarrow> (Returns False, this\<lparr>lastError := m\<rparr>, w')
                | Throws t \<Rightarrow> (Throws t, this, w')))"

definition m_endBatch :: "BoundMetricsClient \<Rightarrow> BoundMetricsClient" where
  "m_endBatch this = m_clearBatch (this\<lparr>m_batchMode := False, multiBatchMode := False\<rparr>)"

text \<open>The three modes of the client, read off its two flags.\<close>

definition in_single_batch :: "BoundMetricsClient \<Rightarrow> bool" where
  "in_single_batch this = (m_batchMode this \<and> \<not> multiBatchMode this)"

definition in_multi_batch :: "BoundMetricsClient \<Rightarrow> bool" where
  "in_multi_batch this = (m_batchMode this \<and> multiBatchMode this)"

definition in_no_batch :: "BoundMetricsClient \<Rightarrow> bool" where
  "in_no_batch this = (\<not> m_batchMode this \<and> \<not> multiBatchMode this)"

text \<open>The states a client is in after any sequence of the mode-changing calls.\<close>

datatype mode_call = BeginBatch jsstring jsstring | BeginMultiBatch | EndBatch | ClearBatch

fun mode_step :: "BoundMetricsClient \<Rightarrow> mode_call \<Rightarrow> BoundMetricsClient" where
  "mode_step c (BeginBatch n u) = m_beginBatch c n u"
| "mode_step c BeginMultiBatch = beginMultiBatch c"
| "mode_step c EndBatch = m_endBatch c"
| "mode_step c ClearBatch = m_clearBatch c"

section \<open>The byte-safe truncator (src/src/utils.ts)\<close>

type_synonym byte = "8 word"

definition MAX_MESSAGE_BYTES :: nat where
  "MAX_MESSAGE_BYTES = 16000"

text \<open>
  \<open>new TextEncoder().encode(str)\<close>: the UTF-8 encoder of the Encoding Standard. The
  string is first converted to scalar values, which replaces every unpaired surrogate
  by U+FFFD. A number above 10FFFF is no code point and occurs in no string; the
  conversion treats it like an unpaired surrogate, so that the encoder is defined on
  every list. A high surrogate followed by a low one does not occur in the list of
  a string either: the two are a pair, one code point.
\<close>

definition is_surrogate :: "nat \<Rightarrow> bool" where
  "is_surrogate cp = (0xD800 \<le> cp \<and> cp \<le> 0xDFFF)"

definition is_scalar :: "nat \<Rightarrow> bool" where
  "is_scalar cp = (cp \<le> 0x10FFFF \<and> \<not> is_surrogate cp)"

text \<open>The bytes of one scalar value.\<close>

definition utf8_encode_cp :: "nat \<Rightarrow> byte list" where
  "utf8_encode_cp cp =
     (if cp \<le> 0x7F then [of_nat cp]
      else if cp \<le> 0x7FF then [of_nat (0xC0 + cp div 64), of_nat (0x80 + cp mod 64)]
      else if cp \<le> 0xFFFF then
        [of_nat (0xE0 + cp div 4096), of_nat (0x80 + cp div 64 mod 64), of_nat (0x80 + cp mod 64)]
      else
        [of_nat (0xF0 + cp div 262144), of_nat (0x80 + cp div 4096 mod 64),
         of_nat (0x80 + cp div 64 mod 64), of_nat (0x80 + cp mod 64)])"

definition to_scalar :: "nat \<Rightarrow> nat" where
  "to_scalar cp = (if is_scalar cp then cp else 0xFFFD)"

definition TextEncoder_encode :: "jsstring \<Rightarrow> byte list" where
  "TextEncoder_encode str = concat (map (\<lambda>cp. utf8_encode_cp (to_scalar cp)) str)"

text \<open>
  \<open>new TextDecoder().decode(bytes)\<close>: the UTF-8 decoder of the Encoding Standard,
  with its default options. A byte that cannot start or continue a sequence yields
  U+FFFD (and is read again as a first byte when it broke a sequence off), an
  unfinished sequence at the end yields U+FFFD, and, \<open>ignoreBOM\<close> being false, a
  U+FEFF that is the first code point decoded is not part of the result.
\<close>

datatype lead = Emit nat | Need nat nat nat nat | Invalid

definition lead_byte :: "nat \<Rightarrow> lead" where
  "lead_byte b =
     (if b \<le> 0x7F then Emit b
      else if 0xC2 \<le> b \<and> b \<le> 0xDF then Need (b - 0xC0) 1 0x80 0xBF
      else if 0xE0 \<le> b \<and> b \<le> 0xEF then
        Need (b - 0xE0) 2 (if b = 0xE0 then 0xA0 else 0x80) (if b = 0xED then 0x9F else 0xBF)
      else if 0xF0 \<le> b \<and> b \<le> 0xF4 then
        Need (b - 0xF0) 3 (if b = 0xF0 then 0x90 else 0x80) (if b = 0xF4 then 0x8F else 0xBF)
      else Invalid)"

text \<open>
  The decoder's state is \<open>None\<close> between sequences and otherwise the code point so
  far, the bytes still needed and the bounds of the next byte.
\<close>

fun utf8_decode :: "(nat \<times> nat \<times> nat \<times> nat) option \<Rightarrow> byte list \<Rightarrow> nat list" where
  "utf8_decode None [] = []"
| "utf8_decode (Some st) [] = [0xFFFD]"
| "utf8_decode None (b # bs) =
     (case lead_byte (unat b) of
        Emit c \<Rightarrow> c # utf8_decode None bs
      | Need c n lo hi \<Rightarrow> utf8_decode (Some (c, n, lo, hi)) bs
      | Invalid \<Rightarrow> 0xFFFD # utf8_decode None bs)"
| "utf8_decode (Some (c, n, lo, hi)) (b # bs) =
     (if unat b < lo \<or> hi < unat b then
        0xFFFD #
        (case lead_byte (unat b) of
           Emit c' \<Rightarrow> c' # utf8_decode None bs
         | Need c' n' lo' hi' \<Rightarrow> utf8_decode (Some (c', n', lo', hi')) bs
         | Invalid \<Rightarrow> 0xFFFD # utf8_decode None bs)
      else if n = 1 then (c * 64 + unat b mod 64) # utf8_decode None bs
      else utf8_decode (Some (c * 64 + unat b mod 64, n - 1, 0x80, 0xBF)) bs)"

definition TextDecoder_decode :: "byte list \<Rightarrow> jsstring" where
  "TextDecoder_decode bytes =
     (case utf8_decode None bytes of
        [] \<Rightarrow> []
      | c # cs \<Rightarrow> if c = 0xFEFF then cs else c # cs)"

text \<open>
  \<open>encoded[i]\<close> is \<open>undefined\<close> outside the array, and \<open>undefined & 0xc0\<close> is 0.
\<close>

definition is_continuation :: "byte list \<Rightarrow> nat \<Rightarrow> bool" where
  "is_continuation encoded i =
     ((if i < length encoded then encoded ! i else 0) AND 0xC0 = 0x80)"

text \<open>The loop \<open>while (end > 0 && (encoded[end] & 0xc0) === 0x80) end--\<close>.\<close>

fun walk_back :: "byte list \<Rightarrow> nat \<Rightarrow> nat" where
  "walk_back encoded 0 = 0"
| "walk_back encoded (Suc e) =
     (if is_continuation encoded (Suc e) then walk_back encoded e else Suc e)"

definition TRUNCATED :: jsstring where
  "TRUNCATED = lit ''... [truncated]''"

text \<open>
  \<open>truncateBytes\<close>. The budget is a number of bytes, a \<open>nat\<close>; \<open>slice(0, end)\<close> is
  \<open>take end\<close> for such an \<open>end\<close>.
\<close>

definition truncateBytes :: "jsstring \<Rightarrow> nat \<Rightarrow> jsstring" where
  "truncateBytes str maxBytes =
     (let encoded = TextEncoder_encode str
      in if length encoded \<le> maxBytes then str
         else TextDecoder_decode (take (walk_back encoded maxBytes) encoded) @ TRUNCATED)"

section \<open>The console capture (src/console-capture.ts)\<close>

datatype console_method = M_log | M_info | M_warn | M_error | M_debug

fun LEVEL_MAP :: "console_method \<Rightarrow> LogLevel" where
  "LEVEL_MAP M_log = Info"
| "LEVEL_MAP M_info = Info"
| "LEVEL_MAP M_warn = Warn"
| "LEVEL_MAP M_error = Error"
| "LEVEL_MAP M_debug = Debug"

text \<open>
  An argument of a console call, as \<open>formatArgs\<close> sees it: a string; an \<open>Error\<close> with
  its name, message and stack; or any other value, given by what \<open>JSON.stringify\<close>
  does with it (it throws, or returns \<open>undefined\<close>, or returns a text) and by what
  \<open>String\<close> makes of it.
\<close>

datatype stringified = StringifyThrows | StringifyUndefined | StringifyText jsstring

datatype console_arg =
    AString jsstring
  | AError jsstring jsstring "jsstring option"
  | AOther stringified jsstring

fun format_arg :: "console_arg \<Rightarrow> jsstring option" where
  "format_arg (AString s) = Some s"
| "format_arg (AError nm msg stack) =
     Some (nm @ lit '': '' @ msg @ [10] @ (case stack of None \<Rightarrow> [] | Some st \<Rightarrow> st))"
| "format_arg (AOther StringifyThrows str) = Some str"
| "format_arg (AOther StringifyUndefined str) = None"
| "format_arg (AOther (StringifyText t) str) = Some t"

text \<open>\<open>join(' ')\<close>: an \<open>undefined\<close> element joins as the empty string.\<close>

fun join_space :: "jsstring option list \<Rightarrow> jsstring" where
  "join_space [] = []"
| "join_space [x] = (case x of None \<Rightarrow> [] | Some s \<Rightarrow> s)"
| "join_space (x # y # ys) = (case x of None \<Rightarrow> [] | Some s \<Rightarrow> s) @ [32] @ join_space (y # ys)"

definition formatArgs :: "console_arg list \<Rightarrow> jsstring" where
  "formatArgs args = join_space (map format_arg args)"

record BufferedLog =
  b_message :: jsstring
  severity :: LogLevel
  b_tags :: obj

text \<open>
  The fields of \<open>ConsoleCapture\<close>, and with them what the capture acts on: whether
  the console methods are the patched ones, the calls that reached the saved
  originals (the terminal), and the requests handed to the capture's \<open>HttpClient\<close>.
\<close>

record ConsoleCapture =
  cc_hostname :: jsstring
  buffer :: "BufferedLog list"
  flushTimer :: bool
  maxBufferSize :: int
  flushing :: bool
  patched :: bool
  terminal :: "(console_method \<times> console_arg list) list"
  posted :: "http_request list"

definition DEFAULT_MAX_BUFFER_SIZE :: int where
  "DEFAULT_MAX_BUFFER_SIZE = 100"

definition ConsoleCapture_new :: "jsstring \<Rightarrow> int option \<Rightarrow> ConsoleCapture" where
  "ConsoleCapture_new host maxSize =
     \<lparr>cc_hostname = host, buffer = [], flushTimer = True,
      maxBufferSize = nullish maxSize DEFAULT_MAX_BUFFER_SIZE,
      flushing = False, patched = True, terminal = [], posted = []\<rparr>"

definition flush_request :: "ConsoleCapture \<Rightarrow> BufferedLog list \<Rightarrow> http_request" where
  "flush_request this logs =
     \<lparr>req_method = POST,
      req_url = BASE_LOGS_URL @ ''/logs/batch'',
      req_body = Some (JObj
        [(''hostname'', JStr (cc_hostname this)),
         (''logs'', JArr (map (\<lambda>l. JObj
            [(''message'', JStr (b_message l)),
             (''severity'', JStr (level_string (severity l))),
             (''tags'', JObj (b_tags l))]) logs))])\<rparr>"

text \<open>
  \<open>flush\<close> up to the point where it returns: the buffer is detached by
  \<open>splice(0)\<close>, the guard is set and the POST is issued. The promise is left pending.
\<close>

definition flush :: "ConsoleCapture \<Rightarrow> ConsoleCapture" where
  "flush this =
     (if length (buffer this) = 0 \<or> flushing this then this
      else
        let logs = buffer this
        in this\<lparr>buffer := [], flushing := True,
                posted := posted this @ [flush_request this logs]\<rparr>)"

text \<open>
  The pending promise of a flush settles: \<open>.catch(() => {})\<close> absorbs a rejection,
  and \<open>.finally\<close> clears the guard in both cases.
\<close>

definition flush_settled :: "HttpResponse outcome \<Rightarrow> ConsoleCapture \<Rightarrow> ConsoleCapture" where
  "flush_settled r this =
     (case r of
        Returns response \<Rightarrow> this\<lparr>flushing := False\<rparr>
      | Throws e \<Rightarrow> this\<lparr>flushing := False\<rparr>)"

text \<open>The wrapper that \<open>patch\<close> installs for \<open>method\<close>.\<close>

definition patched_method :: "console_method \<Rightarrow> ConsoleCapture \<Rightarrow> console_arg list
    \<Rightarrow> ConsoleCapture" where
  "patched_method method this args =
     (let this1 = this\<lparr>terminal := terminal this @ [(method, args)]\<rparr>
      in if flushing this1 then this1
         else
           let msg = truncateBytes (formatArgs args) MAX_MESSAGE_BYTES;
               this2 = this1\<lparr>buffer := buffer this1
                         @ [\<lparr>b_message = msg, severity = LEVEL_MAP method,
                              b_tags = [(''source'', JStr (lit ''console''))]\<rparr>]\<rparr>
           in if int (length (buffer this2)) \<ge> maxBufferSize this2 then flush this2
              else this2)"

text \<open>A call of \<open>console[method]\<close>: the wrapper while patched, the original after.\<close>

definition console_call :: "console_method \<Rightarrow> ConsoleCapture \<Rightarrow> console_arg list
    \<Rightarrow> ConsoleCapture" where
  "console_call method this args =
     (if patched this then patched_method method this args
      else this\<lparr>terminal := terminal this @ [(method, args)]\<rparr>)"

definition shutdown :: "ConsoleCapture \<Rightarrow> ConsoleCapture" where
  "shutdown this = (flush (this\<lparr>flushTimer := False\<rparr>))\<lparr>patched := False\<rparr>"

section \<open>The metric exporter (src/exporters/metric-exporter.ts)\<close>

record LogDotMetricPayload =
  p_name :: jsstring
  p_value :: real
  p_unit :: jsstring
  p_tags :: "jsstring list option"

text \<open>
  The exporter's \<open>formatTags\<close>. An attribute value is \<open>None\<close> when it is \<open>undefined\<close>
  or \<open>null\<close>; the \<open>filter\<close> drops those entries and the \<open>map\<close> formats the others.
\<close>

definition x_formatTags :: "platform \<Rightarrow> (string \<times> json option) list \<Rightarrow> jsstring list option" where
  "x_formatTags P attrs =
     (if length attrs = 0 then None
      else Some (concat (map (\<lambda>(k, v). case v of
                                          None \<Rightarrow> []
                                        | Some x \<Rightarrow> [lit k @ lit '':'' @ to_string P x])
                          attrs)))"

text \<open>
  A data point's \<open>value\<close> is a number or, for a histogram, an object whose four
  fields may each be absent.
\<close>

record histogram =
  h_sum :: "real option"
  h_count :: "real option"
  h_min :: "real option"
  h_max :: "real option"

datatype point_value = PNumber real | PHistogram histogram

record data_point =
  pt_value :: point_value
  pt_attributes :: "(string \<times> json option) list"

datatype DataPointType = DP_HISTOGRAM | DP_EXPONENTIAL_HISTOGRAM | DP_GAUGE | DP_SUM

record MetricData =
  descriptor_name :: jsstring
  descriptor_unit :: jsstring
  dataPointType :: DataPointType
  dataPoints :: "data_point list"

text \<open>
  \<open>Math.round\<close> gives the integer nearest to its argument, a tie towards plus
  infinity; on a double that is exact.
\<close>

definition Math_round :: "real \<Rightarrow> real" where
  "Math_round x = of_int \<lfloor>x + 1 / 2\<rfloor>"

text \<open>\<open>point.value as {sum?, count?, min?, max?}\<close>: a number has none of the fields.\<close>

definition as_histogram :: "point_value \<Rightarrow> histogram" where
  "as_histogram v =
     (case v of
        PHistogram hist \<Rightarrow> hist
      | PNumber x \<Rightarrow> \<lparr>h_sum = None, h_count = None, h_min = None, h_max = None\<rparr>)"

text \<open>The body of the \<open>GAUGE\<close>/\<open>SUM\<close> loop for one point.\<close>

definition convert_number_point :: "platform \<Rightarrow> jsstring \<Rightarrow> jsstring \<Rightarrow> data_point
    \<Rightarrow> LogDotMetricPayload list" where
  "convert_number_point P baseName un point =
     (let v = (case pt_value point of PNumber x \<Rightarrow> x | PHistogram hist \<Rightarrow> 0)
      in if v < 0 then []
         else [\<lparr>p_name = baseName, p_value = v, p_unit = un,
                 p_tags = x_formatTags P (pt_attributes point)\<rparr>])"

text \<open>The body of the \<open>HISTOGRAM\<close> loop for one point: the pushes in their order.\<close>

definition convert_histogram_point :: "platform \<Rightarrow> jsstring \<Rightarrow> jsstring \<Rightarrow> data_point
    \<Rightarrow> LogDotMetricPayload list" where
  "convert_histogram_point P baseName un point =
     (let hist = as_histogram (pt_value point);
          tgs = x_formatTags P (pt_attributes point)
      in (case h_count hist of
            None \<Rightarrow> []
          | Some cnt \<Rightarrow>
              if cnt > 0 then
                [\<lparr>p_name = baseName @ lit ''.count'', p_value = cnt, p_unit = lit ''1'',
                   p_tags = tgs\<rparr>]
                @ (case h_sum hist of
                     None \<Rightarrow> []
                   | Some sm \<Rightarrow>
                       let avg = double_div P sm cnt
                       in if avg \<ge> 0 then
                            [\<lparr>p_name = baseName @ lit ''.avg'',
                               p_value = double_div P (Math_round (double_mul P avg 100)) 100,
                               p_unit = un, p_tags = tgs\<rparr>]
                          else [])
              else [])
         @ (case h_min hist of
              None \<Rightarrow> []
            | Some mn \<Rightarrow>
                if mn \<ge> 0 then
                  [\<lparr>p_name = baseName @ lit ''.min'', p_value = mn, p_unit = un, p_tags = tgs\<rparr>]
                else [])
         @ (case h_max hist of
              None \<Rightarrow> []
            | Some mx \<Rightarrow>
                if mx \<ge> 0 then
                  [\<lparr>p_name = baseName @ lit ''.max'', p_value = mx, p_unit = un, p_tags = tgs\<rparr>]
                else []))"

definition convertMetricData :: "platform \<Rightarrow> MetricData \<Rightarrow> LogDotMetricPayload list" where
  "convertMetricData P metricData =
     (let baseName = descriptor_name metricData;
          un = (if descriptor_unit metricData = [] then lit ''1'' else descriptor_unit metricData)
      in case dataPointType metricData of
           DP_GAUGE \<Rightarrow> concat (map (convert_number_point P baseName un) (dataPoints metricData))
         | DP_SUM \<Rightarrow> concat (map (convert_number_point P baseName un) (dataPoints metricData))
         | DP_HISTOGRAM \<Rightarrow>
             concat (map (convert_histogram_point P baseName un) (dataPoints metricData))
         | DP_EXPONENTIAL_HISTOGRAM \<Rightarrow> [])"

text \<open>
  The fields of \<open>LogDotMetricExporter\<close>. Exports are taken one after the other, each
  awaited to its end, so the promise held in \<open>entityPromise\<close> has settled whenever
  it is looked at; only whether the field is \<open>null\<close> matters.
\<close>

datatype promise = SettledPromise

record LogDotMetricExporter =
  entityName :: jsstring
  x_entityId :: "json option"
  entityPromise :: "promise option"
  x_debugEnabled :: bool

definition LogDotMetricExporter_new :: "jsstring \<Rightarrow> bool option \<Rightarrow> LogDotMetricExporter" where
  "LogDotMetricExporter_new nm dbg =
     \<lparr>entityName = nm, x_entityId = None, entityPromise = None,
      x_debugEnabled = nullish dbg False\<rparr>"

text \<open>Whether a value is truthy, and \<open>response.data?.data?.id\<close> when it is.\<close>

fun truthy :: "json \<Rightarrow> bool" where
  "truthy JNull = False"
| "truthy (JBool b) = b"
| "truthy (JNum x) = (x \<noteq> 0)"
| "truthy (JStr s) = (s \<noteq> [])"
| "truthy (JArr xs) = True"
| "truthy (JObj ps) = True"

definition member_of :: "json option \<Rightarrow> string \<Rightarrow> json option" where
  "member_of v k = (case v of Some (JObj ps) \<Rightarrow> obj_get ps k | _ \<Rightarrow> None)"

definition response_id :: "HttpResponse \<Rightarrow> json option" where
  "response_id r =
     (case member_of (member_of (data r) ''data'') ''id'' of
        None \<Rightarrow> None
      | Some v \<Rightarrow> if truthy v then Some v else None)"

text \<open>
  \<open>resolveEntity\<close> is an \<open>async\<close> function. Called in \<open>ensureEntity\<close>, it runs up to
  its first \<open>await\<close> before \<open>ensureEntity\<close> assigns the promise it returns to
  \<open>entityPromise\<close>; the rest runs after the assignment. Up to the first \<open>await\<close> it
  builds the URL of the lookup: when \<open>encodeURIComponent\<close> throws there, the \<open>catch\<close>
  resets \<open>entityPromise\<close> at once and nothing is left to run.
\<close>

definition resolveEntity_until_await :: "platform \<Rightarrow> LogDotMetricExporter
    \<Rightarrow> LogDotMetricExporter \<times> string option" where
  "resolveEntity_until_await P this =
     (case encodeURIComponent P (entityName this) of
        None \<Rightarrow> (this\<lparr>entityPromise := None\<rparr>, None)
      | Some enc \<Rightarrow> (this, Some (BASE_METRICS_URL @ ''/entities/by-name/'' @ enc)))"

text \<open>
  The rest of \<open>resolveEntity\<close>: what \<open>get\<close> or \<open>post\<close> throws lands in the \<open>catch\<close>,
  which resets \<open>entityPromise\<close>.
\<close>

definition resolveEntity_after_await :: "world \<Rightarrow> LogDotMetricExporter \<Rightarrow> string
    \<Rightarrow> LogDotMetricExporter \<times> world" where
  "resolveEntity_after_await w this getUrl =
     (case http_get w getUrl of
        (Throws e, w1) \<Rightarrow> (this\<lparr>entityPromise := None\<rparr>, w1)
      | (Returns getResponse, w1) \<Rightarrow>
          if status getResponse = 200 \<and> response_id getResponse \<noteq> None
          then (this\<lparr>x_entityId := response_id getResponse\<rparr>, w1)
          else
            (case http_post w1 (BASE_METRICS_URL @ ''/entities'')
                    (JObj [(''name'', JStr (entityName this)),
                           (''description'',
                            JStr (lit ''Auto-instrumented: '' @ entityName this))]) of
               (Throws e, w2) \<Rightarrow> (this\<lparr>entityPromise := None\<rparr>, w2)
             | (Returns createResponse, w2) \<Rightarrow>
                 if (status createResponse = 200 \<or> status createResponse = 201)
                    \<and> response_id createResponse \<noteq> None
                 then (this\<lparr>x_entityId := response_id createResponse\<rparr>, w2)
                 else (this, w2)))"

text \<open>
  \<open>ensureEntity\<close>: \<open>this.entityPromise = this.resolveEntity()\<close> and the \<open>await\<close> of
  that promise by the caller.
\<close>

definition ensureEntity :: "platform \<Rightarrow> world \<Rightarrow> LogDotMetricExporter
    \<Rightarrow> LogDotMetricExporter \<times> world" where
  "ensureEntity P w this =
     (if entityPromise this = None then
        (case resolveEntity_until_await P this of
           (this1, started) \<Rightarrow>
             let this2 = this1\<lparr>entityPromise := Some SettledPromise\<rparr>
             in (case started of
                   None \<Rightarrow> (this2, w)
                 | Some getUrl \<Rightarrow> resolveEntity_after_await w this2 getUrl))
      else (this, w))"

definition payload_json :: "LogDotMetricPayload \<Rightarrow> json" where
  "payload_json p =
     JObj ([(''name'', JStr (p_name p)), (''value'', JNum (p_value p)), (''unit'', JStr (p_unit p))]
           @ (case p_tags p of None \<Rightarrow> [] | Some ts \<Rightarrow> [(''tags'', tags_json ts)]))"

text \<open>
  \<open>doExport\<close> over the metrics of all scopes, and \<open>export\<close>, which reports success
  when \<open>doExport\<close> returns and failure when it throws.
\<close>

definition doExport :: "platform \<Rightarrow> world \<Rightarrow> LogDotMetricExporter \<Rightarrow> MetricData list
    \<Rightarrow> unit outcome \<times> LogDotMetricExporter \<times> world" where
  "doExport P w this metrics =
     (case ensureEntity P w this of
        (this1, w1) \<Rightarrow>
          (case x_entityId this1 of
             None \<Rightarrow> (Returns (), this1, w1)
           | Some eid \<Rightarrow>
               let payloads = concat (map (convertMetricData P) metrics)
               in if length payloads = 0 then (Returns (), this1, w1)
                  else
                    (case http_post w1 (BASE_METRICS_URL @ ''/metrics/batch'')
                            (JObj [(''entity_id'', eid),
                                   (''metrics'', JArr (map payload_json payloads))]) of
                       (Throws e, w2) \<Rightarrow> (Throws e, this1, w2)
                     | (Returns response, w2) \<Rightarrow>
                         if status response \<noteq> 200 \<and> status response \<noteq> 201
                         then (Throws (JsError (lit ''LogDot metrics batch failed with HTTP ''
                                 @ to_string P (JNum (real_of_int (status response))))), this1, w2)
                         else (Returns (), this1, w2))))"

datatype ExportResultCode = SUCCESS | FAILED

definition export_metrics :: "platform \<Rightarrow> world \<Rightarrow> LogDotMetricExporter \<Rightarrow> MetricData list
    \<Rightarrow> ExportResultCode \<times> LogDotMetricExporter \<times> world" where
  "export_metrics P w this metrics =
     (case doExport P w this metrics of
        (Returns u, this1, w1) \<Rightarrow> (SUCCESS, this1, w1)
      | (Throws e, this1, w1) \<Rightarrow> (FAILED, this1, w1))"

section \<open>Requests and example inputs used in the statements\<close>

text \<open>The request that carries a single entry without tags, written out.\<close>

definition single_request :: "LogDotLogger \<Rightarrow> LogLevel \<Rightarrow> jsstring \<Rightarrow> http_request" where
  "single_request this lvl msg =
     \<lparr>req_method = POST,
      req_url = ''https://logs.logdot.io/api/v1/logs'',
      req_body = Some (JObj [(''message'', JStr msg),
                             (''severity'', JStr (level_string lvl)),
                             (''hostname'', JStr (hostname this))])\<rparr>"

definition example_config :: LoggerConfig where
  "example_config =
     \<lparr>apiKey = lit ''k'', cfg_hostname = lit ''svc'', timeout = None, retryAttempts = None,
      retryDelayMs = None, retryMaxDelayMs = None, debug = None\<rparr>"

definition example_entries :: "LogEntry list" where
  "example_entries =
     [\<lparr>message = lit ''a'', level = Info, tags = None\<rparr>,
      \<lparr>message = lit ''b'', level = Warn, tags = Some [(''x'', JNum 1)]\<rparr>,
      \<lparr>message = lit ''c'', level = Error, tags = Some []\<rparr>]"

text \<open>The request that carries these three entries for the host \<open>svc\<close>.\<close>

definition example_batch_post :: http_request where
  "example_batch_post =
     \<lparr>req_method = POST,
      req_url = ''https://logs.logdot.io/api/v1/logs/batch'',
      req_body = Some (JObj
        [(''hostname'', JStr (lit ''svc'')),
         (''logs'', JArr
            [JObj [(''message'', JStr (lit ''a'')), (''severity'', JStr (lit ''info''))],
             JObj [(''message'', JStr (lit ''b'')), (''severity'', JStr (lit ''warn'')),
                   (''tags'', JObj [(''x'', JNum 1)])],
             JObj [(''message'', JStr (lit ''c'')), (''severity'', JStr (lit ''error''))]])])\<rparr>"

definition world_null :: world where
  "world_null = \<lparr>respond = (\<lambda>k rq. Throws JsNull), requests = []\<rparr>"

definition idle_logger :: LogDotLogger where
  "idle_logger = LogDotLogger_new example_config 0"

definition batching_logger :: LogDotLogger where
  "batching_logger = beginBatch idle_logger"

definition queued_logger :: LogDotLogger where
  "queued_logger = (beginBatch idle_logger)\<lparr>batchQueue := example_entries\<rparr>"

definition world_status :: "int \<Rightarrow> world" where
  "world_status st = \<lparr>respond = (\<lambda>k rq. Returns \<lparr>status = st, data = None\<rparr>), requests = []\<rparr>"

definition world_down :: world where
  "world_down = \<lparr>respond = (\<lambda>k rq. Throws (JsError (lit ''fetch failed''))), requests = []\<rparr>"

text \<open>A store holding one context object, and two contexts to merge into it.\<close>

definition example_heap :: heap where
  "example_heap = [[(''env'', JStr (lit ''dev''))]]"

definition ctx_X :: obj where
  "ctx_X = [(''env'', JStr (lit ''prod'')), (''user_id'', JNum 123)]"

definition ctx_Y :: obj where
  "ctx_Y = [(''request_id'', JStr (lit ''abc''))]"

text \<open>
  Rounding to a double (IEEE 754 binary64, to nearest, ties to even) of a real whose
  magnitude is in the range of the finite doubles. The magnitude is scaled by powers
  of 2 until it lies between \<open>2^52\<close> and \<open>2^53\<close>, or the exponent is the least one,
  \<open>-1074\<close>; it is rounded to an integer there and scaled back.
\<close>

fun scale_to_significand :: "nat \<Rightarrow> real \<Rightarrow> int \<Rightarrow> real \<times> int" where
  "scale_to_significand 0 m e = (m, e)"
| "scale_to_significand (Suc fuel) m e =
     (if m < 4503599627370496 \<and> - 1074 < e then scale_to_significand fuel (m * 2) (e - 1)
      else if 9007199254740992 \<le> m then scale_to_significand fuel (m / 2) (e + 1)
      else (m, e))"

definition round_half_even :: "real \<Rightarrow> int" where
  "round_half_even m =
     (let f = \<lfloor>m\<rfloor>
      in if m - of_int f < 1 / 2 then f
         else if 1 / 2 < m - of_int f then f + 1
         else if even f then f else f + 1)"

definition round_double :: "real \<Rightarrow> real" where
  "round_double x =
     (if x = 0 then 0
      else case scale_to_significand 2200 \<bar>x\<bar> 0 of
             (m, e) \<Rightarrow> sgn x * of_int (round_half_even m)
                         * (if 0 \<le> e then 2 ^ nat e else 1 / 2 ^ nat (- e)))"

text \<open>
  A platform for the examples: strings convert to themselves,
  \<open>encodeURIComponent\<close> leaves its argument as it is, and the arithmetic is that of
  doubles.
\<close>

definition example_platform :: platform where
  "example_platform =
     \<lparr>to_string = (\<lambda>v. case v of JStr t \<Rightarrow> t | _ \<Rightarrow> []),
      encodeURIComponent = (\<lambda>t. Some (map char_of t)),
      JSON_parse = (\<lambda>t. None),
      double_div = (\<lambda>a b. round_double (a / b)),
      double_mul = (\<lambda>a b. round_double (a * b))\<rparr>"

definition example_client :: BoundMetricsClient where
  "example_client = BoundMetricsClient_new (lit ''E1'') False"

definition example_retry :: RetryConfig where
  "example_retry = \<lparr>maxAttempts = 3, baseDelayMs = 1000, maxDelayMs = 30000\<rparr>"

definition example_client_http :: HttpClient where
  "example_client_http =
     HttpClient_new \<lparr>hcc_apiKey = lit ''k'', hcc_timeout = None, hcc_debug = None,
       hcc_maxAttempts = None, hcc_baseDelayMs = None, hcc_maxDelayMs = None\<rparr>"

text \<open>One rejected fetch, then a completed response with status 500.\<close>

definition fetches_500 :: "nat \<Rightarrow> fetch_outcome" where
  "fetches_500 k = (if k = 0 then FetchRejects (lit ''fetch failed'') else Completes 500 [])"

text \<open>Every fetch is rejected; the message tells the attempts apart.\<close>

definition fetches_down :: "nat \<Rightarrow> fetch_outcome" where
  "fetches_down k = FetchRejects [k]"

text \<open>A capture with two buffered entries and no flush in flight.\<close>

definition example_buffered :: "BufferedLog list" where
  "example_buffered =
     [\<lparr>b_message = lit ''one'', severity = Info, b_tags = [(''source'', JStr (lit ''console''))]\<rparr>,
      \<lparr>b_message = lit ''two'', severity = Error, b_tags = [(''source'', JStr (lit ''console''))]\<rparr>]"

definition example_capture :: ConsoleCapture where
  "example_capture = (ConsoleCapture_new (lit ''svc'') None)\<lparr>buffer := example_buffered\<rparr>"

text \<open>A server on which the entity is not found and cannot be created.\<close>

definition world_no_entity :: world where
  "world_no_entity =
     \<lparr>respond = (\<lambda>k rq. Returns \<lparr>status = (if req_method rq = GET then 404 else 500), data = None\<rparr>),
      requests = []\<rparr>"

definition example_exporter :: LogDotMetricExporter where
  "example_exporter = LogDotMetricExporter_new (lit ''svc'') None"

definition example_metrics :: "MetricData list" where
  "example_metrics =
     [\<lparr>descriptor_name = lit ''cpu'', descriptor_unit = lit ''percent'', dataPointType = DP_GAUGE,
       dataPoints = [\<lparr>pt_value = PNumber 42, pt_attributes = []\<rparr>]\<rparr>]"




text \<open>
  The values of the bytes of an encoded code point: a first byte is outside
  80..BF, a continuation byte inside.
\<close>

definition lead_value :: "nat \<Rightarrow> bool" where
  "lead_value n = (n < 256 \<and> \<not> (128 \<le> n \<and> n < 192))"

definition cont_value :: "nat \<Rightarrow> bool" where
  "cont_value n = (128 \<le> n \<and> n < 192)"

text \<open>
  Strings to truncate: \<open>h\<close>, \<open>e\<close> with an acute accent (two bytes), \<open>llo\<close>; a string
  that begins with U+FEFF; a string that begins with an unpaired surrogate; a string
  that ends with one.
\<close>

definition accented :: jsstring where
  "accented = [0x68, 0xE9, 0x6C, 0x6C, 0x6F]"

definition bom_string :: jsstring where
  "bom_string = 0xFEFF # lit ''abcd''"

definition surrogate_string :: jsstring where
  "surrogate_string = 0xD800 # lit ''abcd''"

definition late_surrogate_string :: jsstring where
  "late_surrogate_string = lit ''abcd'' @ [0xD800]"

section \<open>Objects and spreads\<close>

lemma obj_set_keys: "fst ` set (obj_set k v ps) = insert k (fst ` set ps)"
  by (induction ps) auto

lemma obj_set_distinct: "distinct (map fst ps) \<Longrightarrow> distinct (map fst (obj_set k v ps))"
proof (induction ps)
  case Nil
  then show ?case by simp
next
  case (Cons p ps)
  have "fst p \<notin> fst ` set (obj_set k v ps)" if "fst p \<noteq> k"
    using Cons.prems that by (simp add: obj_set_keys)
  with Cons show ?case by auto
qed

lemma obj_set_fresh: "k \<notin> fst ` set ps \<Longrightarrow> obj_set k v ps = ps @ [(k, v)]"
  by (induction ps) auto

lemma map_of_obj_set: "map_of (obj_set k v ps) = (map_of ps)(k \<mapsto> v)"
  by (induction ps) (auto simp: fun_eq_iff)

lemma obj_set_not_Nil: "obj_set k v ps \<noteq> []"
  by (cases ps) auto

lemma spread_into_distinct:
  "distinct (map fst t) \<Longrightarrow> distinct (map fst (spread_into t s))"
  unfolding spread_into_def
  by (induction s arbitrary: t) (auto simp: obj_set_distinct)

lemma spread_into_append:
  "distinct (map fst (t @ s)) \<Longrightarrow> spread_into t s = t @ s"
  unfolding spread_into_def
proof (induction s arbitrary: t)
  case Nil
  then show ?case by simp
next
  case (Cons p s)
  obtain k v where p: "p = (k, v)" by (cases p)
  from Cons.prems p have "k \<notin> fst ` set t" by auto
  then have "obj_set k v t = t @ [(k, v)]" by (rule obj_set_fresh)
  moreover from Cons.prems p have "distinct (map fst ((t @ [(k, v)]) @ s))" by auto
  ultimately show ?case using Cons.IH [of "t @ [(k, v)]"] p by simp
qed

lemma spread_into_Nil_id: "distinct (map fst m) \<Longrightarrow> spread_into [] m = m"
  using spread_into_append [of "[]" m] by simp

lemma spread_into_eq_Nil: "spread_into t s = [] \<longleftrightarrow> t = [] \<and> s = []"
  unfolding spread_into_def
proof (induction s arbitrary: t)
  case Nil
  then show ?case by simp
next
  case (Cons p s)
  then show ?case by (cases p) (simp add: obj_set_not_Nil)
qed

lemma map_of_spread_into:
  "distinct (map fst s) \<Longrightarrow>
   map_of (spread_into t s) k = (case map_of s k of Some v \<Rightarrow> Some v | None \<Rightarrow> map_of t k)"
  unfolding spread_into_def
proof (induction s arbitrary: t)
  case Nil
  then show ?case by simp
next
  case (Cons p s)
  obtain k' v' where p: "p = (k', v')" by (cases p)
  from Cons.prems p have d: "distinct (map fst s)" and n: "k' \<notin> set (map fst s)" by auto
  from n have "map_of s k' = None" by (simp add: map_of_eq_None_iff)
  then show ?case using Cons.IH [OF d, of "obj_set k' v' t"] p
    by (auto simp: map_of_obj_set split: option.splits)
qed

lemma spread2_eq_Nil: "spread2 a b = [] \<longleftrightarrow> a = [] \<and> b = []"
  by (auto simp: spread2_def spread_into_eq_Nil)

lemma spread2_distinct: "distinct (map fst (spread2 a b))"
  by (simp add: spread2_def spread_into_distinct)

lemma spread2_spread2: "spread2 (spread2 a x) y = spread3 a x y"
  by (simp add: spread2_def spread3_def spread_into_Nil_id spread_into_distinct)

lemma obj_get_spread2:
  assumes "distinct (obj_keys x)"
  shows "obj_get (spread2 a x) k = (case obj_get x k of Some v \<Rightarrow> Some v | None \<Rightarrow> obj_get (spread_into [] a) k)"
  using assms by (simp add: spread2_def obj_get_def obj_keys_def map_of_spread_into split: option.splits)

lemma deref_alloc_new: "deref (h @ [ob]) (length h) = ob"
  by (simp add: deref_def)

lemma deref_alloc_old: "r < length h \<Longrightarrow> deref (h @ [ob]) r = deref h r"
  by (simp add: deref_def nth_append)

section \<open>The log accumulator: batches, contexts, tags\<close>

text \<open>
  C1. \<open>sendBatch\<close> returns false and issues no request when the logger is not in
  batch mode or its queue is empty. Otherwise it issues exactly one request: a POST
  to \<open>/logs/batch\<close> whose body holds the hostname and, in the order of the queue, for
  every queued entry its message, its severity and, when the entry has tags with at
  least one key, its tags. When the response has status 200 or 201 the result is
  true and the queue is emptied; with any other status, and when the request fails
  with an error, the result is false and the logger, its queue included, is as it
  was, so that calling \<open>sendBatch\<close> again sends the same entries. (When the client
  throws \<open>null\<close>, which it does only if it is configured to make no attempt at all,
  the logger is unchanged as well, but reading the message of \<open>null\<close> makes the call
  throw.)
\<close>

theorem sendBatch_contract:
  "let rq = \<lparr>req_method = POST,
             req_url = ''https://logs.logdot.io/api/v1/logs/batch'',
             req_body = Some (JObj
               [(''hostname'', JStr (hostname this)),
                (''logs'', JArr (map (\<lambda>e. JObj
                   ([(''message'', JStr (message e)),
                     (''severity'', JStr (level_string (level e)))]
                    @ (case tags e of
                         None \<Rightarrow> []
                       | Some t \<Rightarrow> if t = [] then [] else [(''tags'', JObj t)])))
                   (batchQueue this)))])\<rparr>;
       w' = w\<lparr>requests := requests w @ [rq]\<rparr>;
       r = respond w (length (requests w)) rq
   in (\<not> batchMode this \<or> batchQueue this = [] \<longrightarrow> sendBatch w this = (Returns False, this, w))
    \<and> (batchMode this \<and> batchQueue this \<noteq> [] \<longrightarrow>
         (\<forall>resp. r = Returns resp \<and> (status resp = 200 \<or> status resp = 201) \<longrightarrow>
            sendBatch w this = (Returns True, this\<lparr>batchQueue := []\<rparr>, w'))
       \<and> (\<forall>resp. r = Returns resp \<and> status resp \<noteq> 200 \<and> status resp \<noteq> 201 \<longrightarrow>
            sendBatch w this = (Returns False, this, w'))
       \<and> (\<forall>m. r = Throws (JsError m) \<longrightarrow> sendBatch w this = (Returns False, this, w'))
       \<and> (r = Throws JsNull \<longrightarrow> sendBatch w this = (Throws null_message_TypeError, this, w')))"
proof -
  have e: "JObj (batch_entry e)
      = JObj ([(''message'', JStr (message e)), (''severity'', JStr (level_string (level e)))]
              @ (case tags e of
                   None \<Rightarrow> []
                 | Some t \<Rightarrow> if t = [] then [] else [(''tags'', JObj t)]))" for e
    by (cases "tags e")
      (simp_all add: batch_entry_def tags_property_def obj_keys_def spread_into_def)
  have p: "batch_payload this
      = [(''hostname'', JStr (hostname this)),
         (''logs'', JArr (map (\<lambda>e. JObj
            ([(''message'', JStr (message e)), (''severity'', JStr (level_string (level e)))]
             @ (case tags e of
                  None \<Rightarrow> []
                | Some t \<Rightarrow> if t = [] then [] else [(''tags'', JObj t)])))
            (batchQueue this)))]"
    by (simp add: batch_payload_def e)
  show ?thesis
    by (auto simp: Let_def sendBatch_def http_post_def http_call_def BASE_LOGS_URL_def
        ENDPOINT_BATCH_def p clearBatch_def error_message_def)
qed

theorem sendBatch_contract_witness:
  "sendBatch (world_status 200) idle_logger = (Returns False, idle_logger, world_status 200)
   \<and> sendBatch (world_status 200) queued_logger =
       (Returns True, queued_logger\<lparr>batchQueue := []\<rparr>,
        (world_status 200)\<lparr>requests := [example_batch_post]\<rparr>)
   \<and> sendBatch (world_status 201) queued_logger =
       (Returns True, queued_logger\<lparr>batchQueue := []\<rparr>,
        (world_status 201)\<lparr>requests := [example_batch_post]\<rparr>)
   \<and> sendBatch (world_status 500) queued_logger =
       (Returns False, queued_logger, (world_status 500)\<lparr>requests := [example_batch_post]\<rparr>)
   \<and> sendBatch world_down queued_logger =
       (Returns False, queued_logger, world_down\<lparr>requests := [example_batch_post]\<rparr>)
   \<and> sendBatch world_null queued_logger =
       (Throws null_message_TypeError, queued_logger,
        world_null\<lparr>requests := [example_batch_post]\<rparr>)
   \<and> batchQueue queued_logger = example_entries"
proof -
  have q: "batchMode queued_logger" "batchQueue queued_logger = example_entries"
    "hostname queued_logger = lit ''svc''"
    by (simp_all add: queued_logger_def beginBatch_def clearBatch_def idle_logger_def
        LogDotLogger_new_def example_config_def)
  have n: "example_entries \<noteq> []"
    by (simp add: example_entries_def)
  have i: "\<not> batchMode idle_logger"
    by (simp add: idle_logger_def LogDotLogger_new_def)
  have s: "requests (world_status st) = []"
    "respond (world_status st) k rq = Returns \<lparr>status = st, data = None\<rparr>" for st k rq
    by (simp_all add: world_status_def)
  have d: "requests world_down = []"
    "respond world_down k rq = Throws (JsError (lit ''fetch failed''))" for k rq
    by (simp_all add: world_down_def)
  have z: "requests world_null = []" "respond world_null k rq = Throws JsNull" for k rq
    by (simp_all add: world_null_def)
  show ?thesis
    using sendBatch_contract [of idle_logger "world_status 200"]
      sendBatch_contract [of queued_logger "world_status 200"]
      sendBatch_contract [of queued_logger "world_status 201"]
      sendBatch_contract [of queued_logger "world_status 500"]
      sendBatch_contract [of queued_logger world_down]
      sendBatch_contract [of queued_logger world_null] i n
    by (simp add: Let_def s d z q) (simp add: example_entries_def example_batch_post_def)
qed

text \<open>
  C5. \<open>A.withContext(X)\<close> returns a logger whose context is the object
  \<open>{...A.context, ...X}\<close>, in which a key of \<open>X\<close> has the value \<open>X\<close> gives it and any
  other key the value it has in \<open>A\<close>'s context; the new context is another object
  than \<open>A\<close>'s, and \<open>A\<close>'s context object holds what it held before. The context of
  \<open>A.withContext(X).withContext(Y)\<close> is \<open>{...A.context, ...X, ...Y}\<close>, and \<open>A\<close>'s
  context is still unchanged.
\<close>

theorem withContext_merge:
  assumes "ctx A < length h" and "distinct (obj_keys X)"
    and "withContext h A X = (h1, B)" and "withContext h1 B Y = (h2, C)"
  shows "deref h1 (ctx B) = spread2 (deref h (ctx A)) X
       \<and> (\<forall>k. obj_get (deref h1 (ctx B)) k
              = (case obj_get X k of Some v \<Rightarrow> Some v | None \<Rightarrow> obj_get (getContext h A) k))
       \<and> ctx B \<noteq> ctx A
       \<and> deref h1 (ctx A) = deref h (ctx A)
       \<and> deref h2 (ctx C) = spread3 (deref h (ctx A)) X Y
       \<and> deref h2 (ctx A) = deref h (ctx A)"
proof -
  from assms(3) have h1: "h1 = h @ [spread2 (deref h (ctx A)) X]" and B: "ctx B = length h"
    by (auto simp: withContext_def alloc_def LogDotLogger_new_def Let_def)
  from assms(4) have h2: "h2 = h1 @ [spread2 (deref h1 (ctx B)) Y]" and C: "ctx C = length h1"
    by (auto simp: withContext_def alloc_def LogDotLogger_new_def Let_def)
  have 1: "deref h1 (ctx B) = spread2 (deref h (ctx A)) X"
    unfolding h1 B by (rule deref_alloc_new)
  have 2: "obj_get (deref h1 (ctx B)) k
      = (case obj_get X k of Some v \<Rightarrow> Some v | None \<Rightarrow> obj_get (getContext h A) k)" for k
    using assms(2) by (simp add: 1 obj_get_spread2 getContext_def split: option.splits)
  have 3: "ctx B \<noteq> ctx A" using assms(1) B by simp
  have 4: "deref h1 (ctx A) = deref h (ctx A)"
    unfolding h1 using assms(1) by (rule deref_alloc_old)
  have "deref h2 (ctx C) = spread2 (deref h1 (ctx B)) Y"
    unfolding h2 C by (rule deref_alloc_new)
  then have 5: "deref h2 (ctx C) = spread3 (deref h (ctx A)) X Y"
    by (simp add: 1 spread2_spread2)
  have "ctx A < length h1" using assms(1) by (simp add: h1)
  then have "deref h2 (ctx A) = deref h1 (ctx A)"
    unfolding h2 by (rule deref_alloc_old)
  with 4 have 6: "deref h2 (ctx A) = deref h (ctx A)" by simp
  from 1 2 3 4 5 6 show ?thesis by blast
qed

theorem withContext_merge_witness:
  "ctx idle_logger < length example_heap \<and> distinct (obj_keys ctx_X)
   \<and> deref (fst (withContext example_heap idle_logger ctx_X))
        (ctx (snd (withContext example_heap idle_logger ctx_X)))
      = [(''env'', JStr (lit ''prod'')), (''user_id'', JNum 123)]
   \<and> deref (fst (withContext example_heap idle_logger ctx_X)) (ctx idle_logger)
      = [(''env'', JStr (lit ''dev''))]
   \<and> deref (fst (withContext (fst (withContext example_heap idle_logger ctx_X))
                   (snd (withContext example_heap idle_logger ctx_X)) ctx_Y))
        (ctx (snd (withContext (fst (withContext example_heap idle_logger ctx_X))
                   (snd (withContext example_heap idle_logger ctx_X)) ctx_Y)))
      = [(''env'', JStr (lit ''prod'')), (''user_id'', JNum 123), (''request_id'', JStr (lit ''abc''))]"
proof -
  have a: "ctx idle_logger < length example_heap"
    by (simp add: idle_logger_def LogDotLogger_new_def example_heap_def)
  have d: "distinct (obj_keys ctx_X)"
    by (simp add: obj_keys_def ctx_X_def)
  have v: "deref example_heap (ctx idle_logger) = [(''env'', JStr (lit ''dev''))]"
    by (simp add: idle_logger_def LogDotLogger_new_def example_heap_def deref_def)
  have s2: "spread2 [(''env'', JStr (lit ''dev''))] ctx_X
      = [(''env'', JStr (lit ''prod'')), (''user_id'', JNum 123)]"
    by (simp add: spread2_def spread_into_def ctx_X_def)
  have s3: "spread3 [(''env'', JStr (lit ''dev''))] ctx_X ctx_Y
      = [(''env'', JStr (lit ''prod'')), (''user_id'', JNum 123), (''request_id'', JStr (lit ''abc''))]"
    by (simp add: spread3_def spread_into_def ctx_X_def ctx_Y_def)
  show ?thesis
    using withContext_merge [OF a d, of "fst (withContext example_heap idle_logger ctx_X)"
        "snd (withContext example_heap idle_logger ctx_X)" ctx_Y
        "fst (withContext (fst (withContext example_heap idle_logger ctx_X))
                   (snd (withContext example_heap idle_logger ctx_X)) ctx_Y)"
        "snd (withContext (fst (withContext example_heap idle_logger ctx_X))
                   (snd (withContext example_heap idle_logger ctx_X)) ctx_Y)"] a d
    by (simp add: v s2 s3)
qed

lemma mergeTags_empty:
  assumes "spread2 (deref h (ctx this)) (case tgs of None \<Rightarrow> [] | Some t \<Rightarrow> t) = []"
  shows "tags_property (mergeTags h this tgs) = []"
  using assms by (simp add: mergeTags_def tags_property_def obj_keys_def)

text \<open>
  C10. When the merged mapping \<open>{...context, ...tags}\<close> of a log call is empty (also
  when the caller passes \<open>{}\<close> as tags and the context is empty), the payload has no
  \<open>tags\<close> key: outside batch mode the request issued is the single-log request with
  the keys \<open>message\<close>, \<open>severity\<close> and \<open>hostname\<close> only; in batch mode the entry is
  queued and its entry in the batch payload has the keys \<open>message\<close> and \<open>severity\<close>
  only. \<open>debug\<close>, \<open>info\<close>, \<open>warn\<close> and \<open>error\<close> are \<open>log\<close> at their level.
\<close>

theorem empty_tags_key_omitted:
  assumes "spread2 (deref h (ctx this)) (case tgs of None \<Rightarrow> [] | Some t \<Rightarrow> t) = []"
  shows "(\<not> batchMode this \<longrightarrow>
            snd (snd (logger_log h w this lvl msg tgs))
              = w\<lparr>requests := requests w @ [single_request this lvl msg]\<rparr>)
       \<and> (batchMode this \<longrightarrow>
            logger_log h w this lvl msg tgs
              = (Returns True,
                 this\<lparr>batchQueue := batchQueue this
                         @ [\<lparr>message = msg, level = lvl, tags = mergeTags h this tgs\<rparr>]\<rparr>, w)
          \<and> batch_entry \<lparr>message = msg, level = lvl, tags = mergeTags h this tgs\<rparr>
              = [(''message'', JStr msg), (''severity'', JStr (level_string lvl))])
       \<and> logger_debug h w this msg tgs = logger_log h w this Debug msg tgs
       \<and> logger_info h w this msg tgs = logger_log h w this Info msg tgs
       \<and> logger_warn h w this msg tgs = logger_log h w this Warn msg tgs
       \<and> logger_error h w this msg tgs = logger_log h w this Error msg tgs"
proof -
  have t: "tags_property (mergeTags h this tgs) = []"
    using assms by (rule mergeTags_empty)
  have single: "snd (snd (logger_log h w this lvl msg tgs))
        = w\<lparr>requests := requests w @ [single_request this lvl msg]\<rparr>" if "\<not> batchMode this"
    using that
    by (simp add: logger_log_def Let_def sendLog_def single_payload_def t spread_into_def
        http_post_def http_call_def single_request_def BASE_LOGS_URL_def ENDPOINT_SINGLE_def
        error_message_def split: outcome.splits thrown.splits)
  have batch: "logger_log h w this lvl msg tgs
              = (Returns True,
                 this\<lparr>batchQueue := batchQueue this
                         @ [\<lparr>message = msg, level = lvl, tags = mergeTags h this tgs\<rparr>]\<rparr>, w)
          \<and> batch_entry \<lparr>message = msg, level = lvl, tags = mergeTags h this tgs\<rparr>
              = [(''message'', JStr msg), (''severity'', JStr (level_string lvl))]" if "batchMode this"
    using that by (simp add: logger_log_def Let_def batch_entry_def t spread_into_def)
  from single batch show ?thesis
    by (simp add: logger_debug_def logger_info_def logger_warn_def logger_error_def)
qed

theorem empty_tags_key_omitted_witness:
  "spread2 (deref [[]] (ctx idle_logger)) (case Some [] of None \<Rightarrow> [] | Some t \<Rightarrow> t) = []
   \<and> mergeTags [[]] idle_logger (Some []) = Some []
   \<and> snd (snd (logger_log [[]] (world_status 200) idle_logger Info (lit ''a'') (Some [])))
       = (world_status 200)\<lparr>requests := [single_request idle_logger Info (lit ''a'')]\<rparr>
   \<and> logger_log [[]] (world_status 200) batching_logger Info (lit ''a'') (Some [])
       = (Returns True,
          batching_logger\<lparr>batchQueue := [\<lparr>message = lit ''a'', level = Info, tags = Some []\<rparr>]\<rparr>,
          world_status 200)
   \<and> batch_entry \<lparr>message = lit ''a'', level = Info, tags = Some []\<rparr>
       = [(''message'', JStr (lit ''a'')), (''severity'', JStr (level_string Info))]"
proof -
  have e: "spread2 (deref [[]] (ctx idle_logger)) (case Some [] of None \<Rightarrow> [] | Some t \<Rightarrow> t) = []"
    by (simp add: spread2_def spread_into_def deref_def idle_logger_def LogDotLogger_new_def)
  have e': "spread2 (deref [[]] (ctx batching_logger)) (case Some [] of None \<Rightarrow> [] | Some t \<Rightarrow> t) = []"
    by (simp add: spread2_def spread_into_def deref_def idle_logger_def LogDotLogger_new_def
        batching_logger_def beginBatch_def clearBatch_def)
  have i: "\<not> batchMode idle_logger"
    by (simp add: idle_logger_def LogDotLogger_new_def)
  have b: "batchMode batching_logger" "batchQueue batching_logger = []"
    by (simp_all add: batching_logger_def beginBatch_def clearBatch_def)
  have m: "mergeTags [[]] idle_logger (Some []) = Some []"
    "mergeTags [[]] batching_logger (Some []) = Some []"
    by (simp_all add: mergeTags_def spread2_def spread_into_def deref_def idle_logger_def LogDotLogger_new_def
        batching_logger_def beginBatch_def clearBatch_def)
  have l: "logger_log [[]] (world_status 200) batching_logger Info (lit ''a'') (Some [])
       = (Returns True,
          batching_logger\<lparr>batchQueue := [\<lparr>message = lit ''a'', level = Info, tags = Some []\<rparr>]\<rparr>,
          world_status 200)"
    by (simp add: logger_log_def Let_def b m)
  have p: "batch_entry \<lparr>message = lit ''a'', level = Info, tags = Some []\<rparr>
       = [(''message'', JStr (lit ''a'')), (''severity'', JStr (level_string Info))]"
    by (simp add: batch_entry_def tags_property_def obj_keys_def spread_into_def)
  have r: "requests (world_status 200) = []"
    by (simp add: world_status_def)
  from empty_tags_key_omitted [OF e, of "world_status 200" Info "lit ''a''"] i r
  have s: "snd (snd (logger_log [[]] (world_status 200) idle_logger Info (lit ''a'') (Some [])))
       = (world_status 200)\<lparr>requests := [single_request idle_logger Info (lit ''a'')]\<rparr>"
    by simp
  from e m(1) s l p show ?thesis by blast
qed

section \<open>The bound metrics client: mode exclusivity\<close>

text \<open>
  After any sequence of \<open>beginBatch\<close>, \<open>beginMultiBatch\<close>, \<open>endBatch\<close> and
  \<open>clearBatch\<close> a client is in one of the three modes.
\<close>

lemma mode_reachable:
  "in_single_batch (foldl mode_step (BoundMetricsClient_new eid dbg) calls)
   \<or> in_multi_batch (foldl mode_step (BoundMetricsClient_new eid dbg) calls)
   \<or> in_no_batch (foldl mode_step (BoundMetricsClient_new eid dbg) calls)"
proof (induction calls rule: rev_induct)
  case Nil
  then show ?case by (simp add: in_no_batch_def BoundMetricsClient_new_def)
next
  case (snoc c calls)
  then show ?case
    by (cases c)
      (auto simp: in_multi_batch_def in_no_batch_def in_single_batch_def m_beginBatch_def
        beginMultiBatch_def m_endBatch_def m_clearBatch_def)
qed

text \<open>
  C6. In multi-metric batch mode and outside any batch mode, \<open>add\<close> returns false
  and leaves the queue as it was. In single-metric batch mode and outside any batch
  mode, \<open>addMetric\<close> returns false and leaves the queue as it was. In either batch
  mode, \<open>send\<close> returns false, issues no request and leaves the queue as it was.
\<close>

theorem mode_exclusivity:
  "(in_multi_batch this \<or> in_no_batch this \<longrightarrow>
      fst (add this v tgs) = False \<and> m_batchQueue (snd (add this v tgs)) = m_batchQueue this)
   \<and> (in_single_batch this \<or> in_no_batch this \<longrightarrow>
      fst (addMetric this nm v un tgs) = False
      \<and> m_batchQueue (snd (addMetric this nm v un tgs)) = m_batchQueue this)
   \<and> (in_single_batch this \<or> in_multi_batch this \<longrightarrow>
      fst (m_send P w this nm v un tgs) = Returns False
      \<and> snd (snd (m_send P w this nm v un tgs)) = w
      \<and> m_batchQueue (fst (snd (m_send P w this nm v un tgs))) = m_batchQueue this)"
  by (auto simp: in_multi_batch_def in_no_batch_def in_single_batch_def add_def addMetric_def
      m_send_def)

theorem mode_exclusivity_witness:
  "in_no_batch example_client
   \<and> in_single_batch (m_beginBatch example_client (lit ''cpu'') (lit ''percent''))
   \<and> in_multi_batch (beginMultiBatch example_client)
   \<and> fst (add (beginMultiBatch example_client) 1 None) = False
   \<and> m_batchQueue (snd (add (beginMultiBatch example_client) 1 None)) = []
   \<and> fst (add example_client 1 None) = False
   \<and> fst (addMetric (m_beginBatch example_client (lit ''cpu'') (lit ''percent''))
            (lit ''mem'') 1 (lit ''MB'') None) = False
   \<and> m_batchQueue (snd (addMetric (m_beginBatch example_client (lit ''cpu'') (lit ''percent''))
            (lit ''mem'') 1 (lit ''MB'') None)) = []
   \<and> fst (addMetric example_client (lit ''mem'') 1 (lit ''MB'') None) = False
   \<and> m_send example_platform (world_status 200) (m_beginBatch example_client (lit ''cpu'') (lit ''percent''))
        (lit ''mem'') 1 (lit ''MB'') None
      = (Returns False,
         (m_beginBatch example_client (lit ''cpu'') (lit ''percent''))
           \<lparr>lastError := lit ''Cannot use send() in batch mode. Use add() or addMetric() instead.''\<rparr>,
         world_status 200)
   \<and> snd (snd (m_send example_platform (world_status 200) (beginMultiBatch example_client)
        (lit ''mem'') 1 (lit ''MB'') None)) = world_status 200"
proof -
  have n: "in_no_batch example_client"
    by (simp add: in_no_batch_def example_client_def BoundMetricsClient_new_def)
  have s: "in_single_batch (m_beginBatch example_client (lit ''cpu'') (lit ''percent''))"
    by (simp add: in_single_batch_def m_beginBatch_def m_clearBatch_def)
  have m: "in_multi_batch (beginMultiBatch example_client)"
    by (simp add: in_multi_batch_def beginMultiBatch_def m_clearBatch_def)
  have q: "m_batchQueue (beginMultiBatch example_client) = []"
    "m_batchQueue (m_beginBatch example_client (lit ''cpu'') (lit ''percent'')) = []"
    by (simp_all add: beginMultiBatch_def m_beginBatch_def m_clearBatch_def)
  have e: "m_send example_platform (world_status 200) (m_beginBatch example_client (lit ''cpu'') (lit ''percent''))
        (lit ''mem'') 1 (lit ''MB'') None
      = (Returns False,
         (m_beginBatch example_client (lit ''cpu'') (lit ''percent''))
           \<lparr>lastError := lit ''Cannot use send() in batch mode. Use add() or addMetric() instead.''\<rparr>,
         world_status 200)"
    by (simp add: m_send_def m_beginBatch_def m_clearBatch_def)
  show ?thesis
    using mode_exclusivity [of "beginMultiBatch example_client" 1 None "lit ''mem''" "lit ''MB''" example_platform
        "world_status 200"]
      mode_exclusivity [of "m_beginBatch example_client (lit ''cpu'') (lit ''percent'')" 1 None
        "lit ''mem''" "lit ''MB''" example_platform "world_status 200"]
      mode_exclusivity [of example_client 1 None "lit ''mem''" "lit ''MB''" example_platform "world_status 200"]
      n s m q e
    by simp
qed

section \<open>The retrying transport: backoff and retries\<close>

text \<open>
  C4. For every attempt index \<open>i\<close> and random value \<open>r\<close> the delay is
  \<open>min (baseDelay * 2^i + r * 0.3 * baseDelay * 2^i) maxDelay\<close>, which never exceeds
  \<open>maxDelay\<close>; for \<open>r\<close> in \<open>[0, 1)\<close> and a base delay that is not negative, the delay
  before the cap lies between \<open>baseDelay * 2^i\<close> and \<open>baseDelay * 2^i * 1.3\<close>.
\<close>

theorem calculateBackoff_bounds:
  "calculateBackoff rc i r
     = min (baseDelayMs rc * 2 ^ i + r * 0.3 * (baseDelayMs rc * 2 ^ i)) (maxDelayMs rc)
   \<and> calculateBackoff rc i r \<le> maxDelayMs rc
   \<and> (0 \<le> r \<and> r < 1 \<and> 0 \<le> baseDelayMs rc \<longrightarrow>
        baseDelayMs rc * 2 ^ i \<le> baseDelayMs rc * 2 ^ i + r * 0.3 * (baseDelayMs rc * 2 ^ i)
      \<and> baseDelayMs rc * 2 ^ i + r * 0.3 * (baseDelayMs rc * 2 ^ i)
           \<le> baseDelayMs rc * 2 ^ i * 1.3)"
proof -
  have eq: "calculateBackoff rc i r
     = min (baseDelayMs rc * 2 ^ i + r * 0.3 * (baseDelayMs rc * 2 ^ i)) (maxDelayMs rc)"
    by (simp add: calculateBackoff_def Let_def)
  have cap: "calculateBackoff rc i r \<le> maxDelayMs rc"
    unfolding eq by simp
  have bounds: "baseDelayMs rc * 2 ^ i \<le> baseDelayMs rc * 2 ^ i + r * 0.3 * (baseDelayMs rc * 2 ^ i)
      \<and> baseDelayMs rc * 2 ^ i + r * 0.3 * (baseDelayMs rc * 2 ^ i)
           \<le> baseDelayMs rc * 2 ^ i * 1.3"
    if "0 \<le> r" "r < 1" "0 \<le> baseDelayMs rc"
  proof -
    define d where "d = baseDelayMs rc * 2 ^ i"
    from that(3) have d: "0 \<le> d" by (simp add: d_def)
    from that(1) d have "0 \<le> r * d" by simp
    moreover from that(2) d have "r * d \<le> d" by (simp add: mult_left_le_one_le that(1))
    ultimately have "d \<le> d + r * 0.3 * d \<and> d + r * 0.3 * d \<le> d * 1.3"
      by (simp add: mult.commute)
    then show ?thesis by (simp add: d_def)
  qed
  from eq cap bounds show ?thesis by blast
qed

theorem calculateBackoff_bounds_witness:
  "(0::real) \<le> 1 / 2 \<and> (1::real) / 2 < 1 \<and> 0 \<le> baseDelayMs example_retry
   \<and> calculateBackoff example_retry 2 (1 / 2) = 4600
   \<and> calculateBackoff example_retry 5 (1 / 2) = 30000
   \<and> (4000::real) \<le> 4600 \<and> (4600::real) \<le> 5200"
  using calculateBackoff_bounds [of example_retry 2 "1 / 2"]
    calculateBackoff_bounds [of example_retry 5 "1 / 2"]
  by (simp add: example_retry_def)

text \<open>One iteration of the loop of \<open>executeWithRetry\<close>, by the way it ends.\<close>

lemma retry_loop_done:
  "\<not> attempt < maxAttempts rc \<Longrightarrow>
   retry_loop rc fn rnd attempt e sl = \<lparr>settled = Throws e, attempts = attempt, slept = sl\<rparr>"
  by (subst retry_loop.simps) simp

lemma retry_loop_return:
  "attempt < maxAttempts rc \<Longrightarrow> fn attempt = Returns v \<Longrightarrow>
   retry_loop rc fn rnd attempt e sl = \<lparr>settled = Returns v, attempts = attempt + 1, slept = sl\<rparr>"
  by (subst retry_loop.simps) simp

lemma retry_loop_throw:
  "attempt < maxAttempts rc \<Longrightarrow> fn attempt = Throws t \<Longrightarrow>
   retry_loop rc fn rnd attempt e sl =
     retry_loop rc fn rnd (attempt + 1) t
       (if int attempt < int (maxAttempts rc) - 1
        then sl @ [calculateBackoff rc attempt (rnd attempt)] else sl)"
  by (subst retry_loop.simps) simp

lemma retry_loop_attempts:
  "attempt \<le> maxAttempts rc \<Longrightarrow> attempts (retry_loop rc fn rnd attempt e sl) \<le> maxAttempts rc"
proof (induction "maxAttempts rc - attempt" arbitrary: attempt e sl)
  case 0
  then show ?case by (simp add: retry_loop_done)
next
  case (Suc d)
  then have lt: "attempt < maxAttempts rc" by simp
  show ?case
  proof (cases "fn attempt")
    case (Returns v)
    with lt show ?thesis by (simp add: retry_loop_return)
  next
    case (Throws t)
    from Suc(2) lt have "d = maxAttempts rc - (attempt + 1)" "attempt + 1 \<le> maxAttempts rc"
      by simp_all
    from Suc(1) [OF this] show ?thesis
      by (simp only: retry_loop_throw [where fn = fn and attempt = attempt, OF lt Throws])
  qed
qed

lemma retry_loop_only_after_throw:
  "attempt \<le> k \<Longrightarrow> k + 1 < attempts (retry_loop rc fn rnd attempt e sl) \<Longrightarrow> \<exists>t. fn k = Throws t"
proof (induction "maxAttempts rc - attempt" arbitrary: attempt e sl)
  case 0
  then show ?case by (simp add: retry_loop_done)
next
  case (Suc d)
  then have lt: "attempt < maxAttempts rc" by simp
  show ?case
  proof (cases "fn attempt")
    case (Returns v)
    with lt Suc(3,4) show ?thesis by (simp add: retry_loop_return)
  next
    case (Throws t)
    show ?thesis
    proof (cases "k = attempt")
      case True
      with Throws show ?thesis by blast
    next
      case False
      with Suc(3) have le: "attempt + 1 \<le> k" by simp
      from Suc(2) lt have d: "d = maxAttempts rc - (attempt + 1)" by simp
      from Suc(4) show ?thesis
        unfolding retry_loop_throw [where fn = fn and attempt = attempt, OF lt Throws] by (rule Suc(1) [OF d le])
    qed
  qed
qed

lemma retry_loop_first_return:
  "attempt \<le> k \<Longrightarrow> k < maxAttempts rc \<Longrightarrow> \<forall>j. attempt \<le> j \<and> j < k \<longrightarrow> (\<exists>t. fn j = Throws t)
   \<Longrightarrow> fn k = Returns v
   \<Longrightarrow> settled (retry_loop rc fn rnd attempt e sl) = Returns v
       \<and> attempts (retry_loop rc fn rnd attempt e sl) = k + 1"
proof (induction "k - attempt" arbitrary: attempt e sl)
  case 0
  then have "k = attempt" by simp
  with 0 show ?case by (simp add: retry_loop_return)
next
  case (Suc d)
  then have lt: "attempt < k" by simp
  with Suc(4) have ltm: "attempt < maxAttempts rc" by simp
  from lt Suc(5) obtain t where t: "fn attempt = Throws t" by blast
  from Suc(2) lt have d: "d = k - (attempt + 1)" and le: "attempt + 1 \<le> k" by simp_all
  have rest: "\<forall>j. attempt + 1 \<le> j \<and> j < k \<longrightarrow> (\<exists>t. fn j = Throws t)"
    using Suc(5) by simp
  show ?case
    unfolding retry_loop_throw [where fn = fn and attempt = attempt, OF ltm t] by (rule Suc(1) [OF d le Suc(4) rest Suc(6)])
qed

lemma retry_loop_exhausted:
  "attempt \<le> maxAttempts rc \<Longrightarrow> \<forall>j. attempt \<le> j \<and> j < maxAttempts rc \<longrightarrow> (\<exists>t. fn j = Throws t)
   \<Longrightarrow> settled (retry_loop rc fn rnd attempt e sl)
         = (if attempt = maxAttempts rc then Throws e else fn (maxAttempts rc - 1))
       \<and> attempts (retry_loop rc fn rnd attempt e sl) = maxAttempts rc"
proof (induction "maxAttempts rc - attempt" arbitrary: attempt e sl)
  case 0
  then show ?case by (simp add: retry_loop_done)
next
  case (Suc d)
  then have lt: "attempt < maxAttempts rc" by simp
  with Suc(4) obtain t where t: "fn attempt = Throws t" by blast
  from Suc(2) lt have d: "d = maxAttempts rc - (attempt + 1)"
    and le: "attempt + 1 \<le> maxAttempts rc" by simp_all
  have rest: "\<forall>j. attempt + 1 \<le> j \<and> j < maxAttempts rc \<longrightarrow> (\<exists>t. fn j = Throws t)"
    using Suc(4) by simp
  have last: "Throws t = fn (maxAttempts rc - 1)" if "attempt + 1 = maxAttempts rc"
  proof -
    from that have "maxAttempts rc - 1 = attempt" by linarith
    with t show ?thesis by simp
  qed
  have "settled (retry_loop rc fn rnd attempt e sl)
         = (if attempt + 1 = maxAttempts rc then Throws t else fn (maxAttempts rc - 1))
       \<and> attempts (retry_loop rc fn rnd attempt e sl) = maxAttempts rc"
    unfolding retry_loop_throw [where fn = fn and attempt = attempt, OF lt t] by (rule Suc(1) [OF d le rest])
  with last lt show ?case by (cases "attempt + 1 = maxAttempts rc") simp_all
qed

text \<open>
  C3. \<open>post\<close> calls \<open>fetch\<close> at most \<open>maxAttempts\<close> times, and makes a further attempt
  only after an attempt that threw. The first attempt whose response completes ends
  the call: the response is returned with its status, whatever the status is, and
  no further attempt is made. When all \<open>maxAttempts\<close> attempts throw (and there is at
  least one), the call throws what the last attempt threw.
\<close>

theorem retry_contract:
  "let n = maxAttempts (retryConfig this);
       fn = (\<lambda>k. request_attempt P (fetches k));
       r = HttpClient_post P this fetches rnd
   in attempts r \<le> n
    \<and> (\<forall>k. k + 1 < attempts r \<longrightarrow> (\<exists>e. fn k = Throws e))
    \<and> (\<forall>k st body. k < n \<and> (\<forall>j. j < k \<longrightarrow> (\<exists>e. fn j = Throws e)) \<and> fetches k = Completes st body \<longrightarrow>
          settled r = Returns \<lparr>status = st, data = (if body = [] then None else JSON_parse P body)\<rparr>
          \<and> attempts r = k + 1)
    \<and> (0 < n \<and> (\<forall>j. j < n \<longrightarrow> (\<exists>e. fn j = Throws e)) \<longrightarrow>
          settled r = fn (n - 1) \<and> attempts r = n)"
proof -
  define n where "n = maxAttempts (retryConfig this)"
  define fn where "fn = (\<lambda>k. request_attempt P (fetches k))"
  define r where "r = HttpClient_post P this fetches rnd"
  have r: "r = retry_loop (retryConfig this) fn rnd 0 JsNull []"
    by (simp add: r_def fn_def HttpClient_post_def executeWithRetry_def)
  have 1: "attempts r \<le> n"
    unfolding r n_def by (rule retry_loop_attempts) simp
  have 2: "\<exists>e. fn k = Throws e" if "k + 1 < attempts r" for k
    using that unfolding r by (rule retry_loop_only_after_throw [rotated]) simp
  have 3: "settled r = Returns \<lparr>status = st, data = (if body = [] then None else JSON_parse P body)\<rparr>
          \<and> attempts r = k + 1"
    if "k < n" "\<forall>j. j < k \<longrightarrow> (\<exists>e. fn j = Throws e)" "fetches k = Completes st body" for k st body
  proof -
    from that(3) have "fn k = Returns \<lparr>status = st, data = (if body = [] then None else JSON_parse P body)\<rparr>"
      by (simp add: fn_def request_attempt_def)
    with that(1,2) show ?thesis
      unfolding r n_def by (intro retry_loop_first_return) simp_all
  qed
  have 4: "settled r = fn (n - 1) \<and> attempts r = n"
    if "0 < n" "\<forall>j. j < n \<longrightarrow> (\<exists>e. fn j = Throws e)"
    using retry_loop_exhausted [of 0 "retryConfig this" fn rnd JsNull "[]"] that
    by (simp add: r n_def)
  from 1 2 3 4 show ?thesis
    unfolding Let_def n_def [symmetric] fn_def [symmetric] r_def [symmetric] by blast
qed

theorem retry_contract_witness:
  "maxAttempts (retryConfig example_client_http) = 3
   \<and> settled (HttpClient_post example_platform example_client_http fetches_500 (\<lambda>k. 0))
       = Returns \<lparr>status = 500, data = None\<rparr>
   \<and> attempts (HttpClient_post example_platform example_client_http fetches_500 (\<lambda>k. 0)) = 2
   \<and> settled (HttpClient_post example_platform example_client_http fetches_down (\<lambda>k. 0))
       = Throws (JsError [2])
   \<and> attempts (HttpClient_post example_platform example_client_http fetches_down (\<lambda>k. 0)) = 3"
proof -
  have n: "maxAttempts (retryConfig example_client_http) = 3"
    by (simp add: example_client_http_def HttpClient_new_def nullish_def)
  have f0: "\<forall>j. j < 1 \<longrightarrow> (\<exists>e. request_attempt example_platform (fetches_500 j) = Throws e)"
    by (simp add: request_attempt_def fetches_500_def)
  have f1: "fetches_500 1 = Completes 500 []"
    by (simp add: fetches_500_def)
  have d: "\<forall>j. j < 3 \<longrightarrow> (\<exists>e. request_attempt example_platform (fetches_down j) = Throws e)"
    by (simp add: request_attempt_def fetches_down_def)
  have l: "request_attempt example_platform (fetches_down 2) = Throws (JsError [2])"
    by (simp add: request_attempt_def fetches_down_def)
  have c: "settled (HttpClient_post example_platform example_client_http fetches_500 (\<lambda>k. 0))
          = Returns \<lparr>status = st, data = (if body = [] then None else JSON_parse example_platform body)\<rparr>
        \<and> attempts (HttpClient_post example_platform example_client_http fetches_500 (\<lambda>k. 0)) = k + 1"
    if "k < 3" "\<forall>j. j < k \<longrightarrow> (\<exists>e. request_attempt example_platform (fetches_500 j) = Throws e)"
      "fetches_500 k = Completes st body" for k st body
    using retry_contract [of example_client_http example_platform fetches_500 "\<lambda>k. 0"] that
    unfolding Let_def n by blast
  from c [of 1 500 "[]"] f0 f1
  have a: "settled (HttpClient_post example_platform example_client_http fetches_500 (\<lambda>k. 0))
       = Returns \<lparr>status = 500, data = None\<rparr>
   \<and> attempts (HttpClient_post example_platform example_client_http fetches_500 (\<lambda>k. 0)) = 2"
    by simp
  have "settled (HttpClient_post example_platform example_client_http fetches_down (\<lambda>k. 0))
          = request_attempt example_platform (fetches_down (3 - 1))
        \<and> attempts (HttpClient_post example_platform example_client_http fetches_down (\<lambda>k. 0)) = 3"
    using retry_contract [of example_client_http example_platform fetches_down "\<lambda>k. 0"] d
    unfolding Let_def n by simp
  with l
  have b: "settled (HttpClient_post example_platform example_client_http fetches_down (\<lambda>k. 0))
       = Throws (JsError [2])
   \<and> attempts (HttpClient_post example_platform example_client_http fetches_down (\<lambda>k. 0)) = 3"
    by simp
  from n a b show ?thesis by blast
qed

section \<open>The console capture: the recursion guard\<close>

text \<open>
  C7. While the guard \<open>flushing\<close> is set, a patched console method hands its
  arguments to the saved original and changes nothing else (the buffer and the
  requests issued stay as they are), and \<open>flush\<close> changes nothing. A patched method
  hands its arguments to the original in every state. When the pending request of a
  flush settles, with a response or with an error, the guard is cleared and the
  buffer is not touched. A flush with the guard clear and a buffer that is not empty
  empties the buffer, sets the guard and issues one request with all entries that
  were buffered; after that request settles, however it does, the buffer is still
  empty: the entries of a failed flush are not queued again.
\<close>

theorem recursion_guard:
  "(flushing this \<longrightarrow>
      patched_method method this args = this\<lparr>terminal := terminal this @ [(method, args)]\<rparr>
      \<and> buffer (patched_method method this args) = buffer this
      \<and> posted (patched_method method this args) = posted this
      \<and> flush this = this)
   \<and> terminal (patched_method method this args) = terminal this @ [(method, args)]
   \<and> flushing (flush_settled r this) = False
   \<and> buffer (flush_settled r this) = buffer this
   \<and> posted (flush_settled r this) = posted this
   \<and> (\<not> flushing this \<and> buffer this \<noteq> [] \<longrightarrow>
        flush this = this\<lparr>buffer := [], flushing := True,
                          posted := posted this @ [flush_request this (buffer this)]\<rparr>
        \<and> buffer (flush_settled r (flush this)) = []
        \<and> flushing (flush_settled r (flush this)) = False)"
proof -
  have t: "terminal (flush c) = terminal c" for c
    by (simp add: flush_def Let_def)
  have 1: "terminal (patched_method method this args) = terminal this @ [(method, args)]"
    by (simp add: patched_method_def Let_def t)
  have 2: "patched_method method this args = this\<lparr>terminal := terminal this @ [(method, args)]\<rparr>"
    and 3: "flush this = this" if "flushing this"
    using that by (simp_all add: patched_method_def flush_def Let_def)
  have 4: "flushing (flush_settled r this) = False" "buffer (flush_settled r this) = buffer this"
    "posted (flush_settled r this) = posted this" for this
    by (simp_all add: flush_settled_def split: outcome.splits)
  have 5: "flush this = this\<lparr>buffer := [], flushing := True,
                          posted := posted this @ [flush_request this (buffer this)]\<rparr>"
    if "\<not> flushing this" "buffer this \<noteq> []"
    using that by (simp add: flush_def Let_def)
  have 6: "buffer (flush_settled r (flush this)) = []" if "\<not> flushing this" "buffer this \<noteq> []"
    by (simp add: 4 5 [OF that])
  from 1 2 3 4 5 6 show ?thesis by simp
qed

theorem recursion_guard_witness:
  "\<not> flushing example_capture \<and> buffer example_capture = example_buffered
   \<and> flush example_capture
       = example_capture\<lparr>buffer := [], flushing := True,
           posted := [flush_request example_capture example_buffered]\<rparr>
   \<and> flushing (flush example_capture)
   \<and> patched_method M_error (flush example_capture) [AString (lit ''POST failed'')]
       = (flush example_capture)\<lparr>terminal := [(M_error, [AString (lit ''POST failed'')])]\<rparr>
   \<and> buffer (patched_method M_error (flush example_capture) [AString (lit ''POST failed'')]) = []
   \<and> flush (flush example_capture) = flush example_capture
   \<and> buffer (flush_settled (Throws (JsError (lit ''fetch failed''))) (flush example_capture)) = []
   \<and> flushing (flush_settled (Throws (JsError (lit ''fetch failed''))) (flush example_capture)) = False
   \<and> flushing (flush_settled (Returns \<lparr>status = 200, data = None\<rparr>) (flush example_capture)) = False"
proof -
  have a: "\<not> flushing example_capture" "buffer example_capture = example_buffered"
    "posted example_capture = []" "terminal example_capture = []"
    by (simp_all add: example_capture_def ConsoleCapture_new_def)
  have n: "example_buffered \<noteq> []"
    by (simp add: example_buffered_def)
  have nn: "\<not> flushing example_capture \<and> buffer example_capture \<noteq> []"
    by (simp add: a n)
  from recursion_guard [of example_capture M_error "[AString (lit ''POST failed'')]"
      "Throws (JsError (lit ''fetch failed''))"] nn
  have f0: "flush example_capture
       = example_capture\<lparr>buffer := [], flushing := True,
           posted := posted example_capture @ [flush_request example_capture (buffer example_capture)]\<rparr>"
    and d: "buffer (flush_settled (Throws (JsError (lit ''fetch failed''))) (flush example_capture)) = []"
      "flushing (flush_settled (Throws (JsError (lit ''fetch failed''))) (flush example_capture)) = False"
    by blast+
  from f0 have f: "flush example_capture
       = example_capture\<lparr>buffer := [], flushing := True,
           posted := [flush_request example_capture example_buffered]\<rparr>"
    by (simp add: a)
  from f have g: "flushing (flush example_capture)" "buffer (flush example_capture) = []"
    "terminal (flush example_capture) = []"
    by (simp_all add: a)
  from recursion_guard [of "flush example_capture" M_error "[AString (lit ''POST failed'')]"
      "Returns \<lparr>status = 200, data = None\<rparr>"] g(1)
  have p0: "patched_method M_error (flush example_capture) [AString (lit ''POST failed'')]
       = (flush example_capture)\<lparr>terminal := terminal (flush example_capture)
            @ [(M_error, [AString (lit ''POST failed'')])]\<rparr>"
    "buffer (patched_method M_error (flush example_capture) [AString (lit ''POST failed'')])
       = buffer (flush example_capture)"
    "flush (flush example_capture) = flush example_capture"
    by blast+
  have p: "patched_method M_error (flush example_capture) [AString (lit ''POST failed'')]
       = (flush example_capture)\<lparr>terminal := [(M_error, [AString (lit ''POST failed'')])]\<rparr>"
    "buffer (patched_method M_error (flush example_capture) [AString (lit ''POST failed'')]) = []"
    "flush (flush example_capture) = flush example_capture"
    using p0 by (simp_all only: g append_Nil)
  from recursion_guard [of example_capture M_error "[AString (lit ''POST failed'')]"
      "Returns \<lparr>status = 200, data = None\<rparr>"] nn
  have s: "flushing (flush_settled (Returns \<lparr>status = 200, data = None\<rparr>) (flush example_capture)) = False"
    by blast
  from a(1,2) f g(1) p d s show ?thesis by blast
qed

section \<open>The metric exporter: entity resolution and histograms\<close>

text \<open>
  While \<open>entityPromise\<close> is set, \<open>ensureEntity\<close> does nothing: a resolution that set
  the entity id is never repeated. An exception in the lookup resets \<open>entityPromise\<close>.
  When \<open>encodeURIComponent\<close> throws, the reset comes before the assignment in
  \<open>ensureEntity\<close>, and \<open>entityPromise\<close> is left set. An exporter whose \<open>entityPromise\<close>
  is set and whose entity id is not skips every export, without a request.
\<close>

lemma memoized_entity:
  "entityPromise this \<noteq> None \<Longrightarrow> ensureEntity P w this = (this, w)"
  by (cases "entityPromise this") (simp_all add: ensureEntity_def)

lemma resolution_thrown_resets:
  "encodeURIComponent P (entityName this) = Some enc \<Longrightarrow>
   respond w (length (requests w))
     \<lparr>req_method = GET, req_url = BASE_METRICS_URL @ ''/entities/by-name/'' @ enc, req_body = None\<rparr>
     = Throws e \<Longrightarrow>
   entityPromise (fst (ensureEntity P w (this\<lparr>entityPromise := None\<rparr>))) = None"
  by (simp add: ensureEntity_def resolveEntity_until_await_def resolveEntity_after_await_def
      http_get_def http_call_def)

lemma resolution_URIError_keeps_memo:
  "encodeURIComponent P (entityName this) = None \<Longrightarrow> entityPromise this = None \<Longrightarrow>
   ensureEntity P w this = (this\<lparr>entityPromise := Some SettledPromise\<rparr>, w)"
  by (simp add: ensureEntity_def resolveEntity_until_await_def)

lemma stuck_without_entity:
  "entityPromise this \<noteq> None \<Longrightarrow> x_entityId this = None \<Longrightarrow>
   export_metrics P w this metrics = (SUCCESS, this, w)"
  by (cases "entityPromise this") (simp_all add: export_metrics_def doExport_def ensureEntity_def)

text \<open>
  C8. The claim fails on the code. When the lookup answers 404 and the creation
  answers 500, nothing is thrown, so the first export ends with no entity id and with
  \<open>entityPromise\<close> still set, after a GET and a POST. The second export issues no
  request at all and leaves the exporter as it is: resolution is not tried again.
\<close>

theorem failed_resolution_not_retried:
  "fst (export_metrics example_platform world_no_entity example_exporter example_metrics) = SUCCESS
   \<and> x_entityId (fst (snd (export_metrics example_platform world_no_entity example_exporter
         example_metrics))) = None
   \<and> entityPromise (fst (snd (export_metrics example_platform world_no_entity example_exporter
         example_metrics))) = Some SettledPromise
   \<and> map req_method (requests (snd (snd (export_metrics example_platform world_no_entity
         example_exporter example_metrics)))) = [GET, POST]
   \<and> export_metrics example_platform
         (snd (snd (export_metrics example_platform world_no_entity example_exporter example_metrics)))
         (fst (snd (export_metrics example_platform world_no_entity example_exporter example_metrics)))
         example_metrics
       = (SUCCESS,
          fst (snd (export_metrics example_platform world_no_entity example_exporter example_metrics)),
          snd (snd (export_metrics example_platform world_no_entity example_exporter example_metrics)))"
proof -
  have e: "export_metrics example_platform world_no_entity example_exporter example_metrics
      = (SUCCESS, example_exporter\<lparr>entityPromise := Some SettledPromise\<rparr>,
         world_no_entity\<lparr>requests :=
           [\<lparr>req_method = GET,
             req_url = BASE_METRICS_URL @ ''/entities/by-name/'' @ map char_of (lit ''svc''),
             req_body = None\<rparr>,
            \<lparr>req_method = POST, req_url = BASE_METRICS_URL @ ''/entities'',
             req_body = Some (JObj [(''name'', JStr (lit ''svc'')),
               (''description'', JStr (lit ''Auto-instrumented: '' @ lit ''svc''))])\<rparr>]\<rparr>)"
    by (simp add: export_metrics_def doExport_def ensureEntity_def resolveEntity_until_await_def
        resolveEntity_after_await_def http_get_def http_post_def http_call_def world_no_entity_def example_exporter_def
        LogDotMetricExporter_new_def nullish_def example_platform_def response_id_def
        member_of_def)
  show ?thesis
    unfolding e
    by (simp add: stuck_without_entity example_exporter_def LogDotMetricExporter_new_def)
qed







section \<open>The byte-safe truncator: the cut and the prefix\<close>

text \<open>The test \<open>(b & 0xc0) === 0x80\<close> on a byte, by its value.\<close>

lemma cont_iff_exhaust:
  "\<forall>n\<in>{..<256::nat}. ((of_nat n :: 8 word) AND 0xC0 = 0x80) = (128 \<le> n \<and> n < 192)"
  by code_simp

lemma cont_of_nat:
  "n < 256 \<Longrightarrow> ((of_nat n :: byte) AND 0xC0 = 0x80) = (128 \<le> n \<and> n < 192)"
  using cont_iff_exhaust by blast

lemma unat_byte: "n < 256 \<Longrightarrow> unat (of_nat n :: byte) = n"
  by (simp add: unat_of_nat)

text \<open>An encoded code point is a first byte followed by continuation bytes.\<close>

lemma encode_cp_shape:
  assumes "cp \<le> 0x10FFFF"
  shows "\<exists>b cs. utf8_encode_cp cp = of_nat b # map of_nat cs \<and> lead_value b
           \<and> (\<forall>c\<in>set cs. cont_value c)"
proof -
  consider "cp \<le> 0x7F" | "0x7F < cp" "cp \<le> 0x7FF" | "0x7FF < cp" "cp \<le> 0xFFFF" | "0xFFFF < cp"
    by linarith
  then show ?thesis
  proof cases
    case 1
    then have "utf8_encode_cp cp = of_nat cp # map of_nat []" "lead_value cp"
      by (simp_all add: utf8_encode_cp_def lead_value_def)
    then show ?thesis by fastforce
  next
    case 2
    then have "utf8_encode_cp cp = of_nat (0xC0 + cp div 64) # map of_nat [0x80 + cp mod 64]"
      "lead_value (0xC0 + cp div 64)" "cont_value (0x80 + cp mod 64)"
      by (simp_all add: utf8_encode_cp_def lead_value_def cont_value_def)
    then show ?thesis by fastforce
  next
    case 3
    then have "utf8_encode_cp cp = of_nat (0xE0 + cp div 4096)
        # map of_nat [0x80 + cp div 64 mod 64, 0x80 + cp mod 64]"
      "lead_value (0xE0 + cp div 4096)" "cont_value (0x80 + cp div 64 mod 64)"
      "cont_value (0x80 + cp mod 64)"
      by (simp_all add: utf8_encode_cp_def lead_value_def cont_value_def)
    then show ?thesis by fastforce
  next
    case 4
    with assms have "utf8_encode_cp cp = of_nat (0xF0 + cp div 262144)
        # map of_nat [0x80 + cp div 4096 mod 64, 0x80 + cp div 64 mod 64, 0x80 + cp mod 64]"
      "lead_value (0xF0 + cp div 262144)" "cont_value (0x80 + cp div 4096 mod 64)"
      "cont_value (0x80 + cp div 64 mod 64)" "cont_value (0x80 + cp mod 64)"
      by (simp_all add: utf8_encode_cp_def lead_value_def cont_value_def)
    then show ?thesis by fastforce
  qed
qed

lemma is_continuation_shape:
  assumes "lead_value b" "\<forall>c\<in>set cs. cont_value c"
  shows "\<not> is_continuation ((of_nat b # map of_nat cs) @ r) 0"
    and "0 < i \<Longrightarrow> i < Suc (length cs) \<Longrightarrow> is_continuation ((of_nat b # map of_nat cs) @ r) i"
proof -
  from assms(1) show "\<not> is_continuation ((of_nat b # map of_nat cs) @ r) 0"
    by (simp add: is_continuation_def lead_value_def cont_of_nat)
next
  assume i: "0 < i" "i < Suc (length cs)"
  then obtain j where j: "i = Suc j" "j < length cs" by (cases i) auto
  with assms(2) have c: "cont_value (cs ! j)" by simp
  then have "cs ! j < 256" by (simp add: cont_value_def)
  with c j show "is_continuation ((of_nat b # map of_nat cs) @ r) i"
    by (simp add: is_continuation_def nth_append cont_of_nat cont_value_def)
qed

lemma is_continuation_append:
  "is_continuation (e @ r) (length e + i) = is_continuation r i"
  by (simp add: is_continuation_def nth_append)

lemma is_continuation_Nil: "\<not> is_continuation [] i"
  by (simp add: is_continuation_def)

text \<open>The loop walks back to the start of the code point it stands in.\<close>

lemma walk_back_offset:
  assumes "\<not> is_continuation r 0"
  shows "walk_back (e @ r) (length e + j) = length e + walk_back r j"
proof (induction j)
  case 0
  show ?case
  proof (cases "length e")
    case 0
    then show ?thesis by simp
  next
    case (Suc n)
    have "\<not> is_continuation (e @ r) (length e + 0)"
      using assms is_continuation_append [of e r 0] by simp
    then show ?thesis using Suc by simp
  qed
next
  case (Suc j)
  have "is_continuation (e @ r) (Suc (length e + j)) = is_continuation r (Suc j)"
    using is_continuation_append [of e r "Suc j"] by simp
  with Suc show ?case by simp
qed

lemma walk_back_all_continuation:
  "(\<And>i. 0 < i \<Longrightarrow> i \<le> m \<Longrightarrow> is_continuation enc i) \<Longrightarrow> walk_back enc m = 0"
  by (induction m) simp_all

lemma encode_cp_nonempty: "utf8_encode_cp cp \<noteq> []"
  by (simp add: utf8_encode_cp_def)

lemma enc_first_not_continuation:
  assumes "\<forall>cp\<in>set t. cp \<le> 0x10FFFF"
  shows "\<not> is_continuation (concat (map utf8_encode_cp t)) 0"
proof (cases t)
  case Nil
  then show ?thesis by (simp add: is_continuation_Nil)
next
  case (Cons c cs)
  with assms obtain b bs where "utf8_encode_cp c = of_nat b # map of_nat bs" "lead_value b"
    "\<forall>c\<in>set bs. cont_value c"
    using encode_cp_shape [of c] by auto
  with Cons show ?thesis
    using is_continuation_shape(1) [of b bs "concat (map utf8_encode_cp cs)"] by simp
qed

lemma walk_back_prefix:
  assumes "\<forall>cp\<in>set t. cp \<le> 0x10FFFF" and "m < length (concat (map utf8_encode_cp t))"
  shows "\<exists>k<length t.
           walk_back (concat (map utf8_encode_cp t)) m = length (concat (map utf8_encode_cp (take k t)))
         \<and> length (concat (map utf8_encode_cp (take k t))) \<le> m
         \<and> m < length (concat (map utf8_encode_cp (take (Suc k) t)))"
  using assms
proof (induction t arbitrary: m)
  case Nil
  then show ?case by simp
next
  case (Cons c t)
  let ?e = "utf8_encode_cp c"
  let ?r = "concat (map utf8_encode_cp t)"
  from Cons.prems(1) obtain b bs where sh: "?e = of_nat b # map of_nat bs" "lead_value b"
    "\<forall>c\<in>set bs. cont_value c"
    using encode_cp_shape [of c] by auto
  from Cons.prems(1) have t: "\<forall>cp\<in>set t. cp \<le> 0x10FFFF" by simp
  show ?case
  proof (cases "m < length ?e")
    case True
    have "is_continuation (?e @ ?r) i" if "0 < i" "i \<le> m" for i
      using is_continuation_shape(2) [OF sh(2,3), of i ?r] that True sh(1) by simp
    then have "walk_back (?e @ ?r) m = 0" by (rule walk_back_all_continuation)
    with True show ?thesis by (intro exI [of _ 0]) simp
  next
    case False
    then obtain j where j: "m = length ?e + j" using le_Suc_ex not_less by blast
    with Cons.prems(2) have jl: "j < length ?r" by simp
    from Cons.IH [OF t jl] obtain k where k: "k < length t"
      "walk_back ?r j = length (concat (map utf8_encode_cp (take k t)))"
      "length (concat (map utf8_encode_cp (take k t))) \<le> j"
      "j < length (concat (map utf8_encode_cp (take (Suc k) t)))"
      by blast
    have "walk_back (?e @ ?r) (length ?e + j) = length ?e + walk_back ?r j"
      using enc_first_not_continuation [OF t] by (rule walk_back_offset)
    with k j show ?thesis by (intro exI [of _ "Suc k"]) simp
  qed
qed

lemma take_enc_prefix:
  "take (length (concat (map f (take k t)))) (concat (map f t)) = concat (map f (take k t))"
proof -
  have "concat (map f t) = concat (map f (take k t)) @ concat (map f (drop k t))"
    by (metis append_take_drop_id concat_append map_append)
  then show ?thesis by simp
qed

text \<open>The decoder reads an encoded scalar value back.\<close>

lemma mod64_cont: "(128 + x mod 64) mod 64 = x mod (64::nat)"
proof -
  have "(128 + x mod 64) mod 64 = (128 mod 64 + x mod 64 mod 64) mod 64"
    by (rule mod_add_eq [symmetric])
  then show ?thesis by simp
qed

lemma cont_low_3: "(32::nat) \<le> q \<Longrightarrow> q div 64 = 0 \<Longrightarrow> 160 \<le> 128 + q mod 64"
proof -
  assume a: "32 \<le> q" "q div 64 = 0"
  from a(2) have "q < 64" by (simp add: div_eq_0_iff)
  then have "q mod 64 = q" by simp
  with a(1) show ?thesis by simp
qed

lemma cont_high_3: "(q::nat) \<le> 863 \<Longrightarrow> q div 64 = 13 \<Longrightarrow> 128 + q mod 64 \<le> 159"
proof -
  assume a: "q \<le> 863" "q div 64 = 13"
  have "64 * (q div 64) + q mod 64 = q" by (rule mult_div_mod_eq)
  with a have "832 + q mod 64 \<le> 863" by simp
  then show ?thesis by simp
qed

lemma cont_low_4: "(16::nat) \<le> p \<Longrightarrow> p div 64 = 0 \<Longrightarrow> 144 \<le> 128 + p mod 64"
proof -
  assume a: "16 \<le> p" "p div 64 = 0"
  from a(2) have "p < 64" by (simp add: div_eq_0_iff)
  then have "p mod 64 = p" by simp
  with a(1) show ?thesis by simp
qed

lemma cont_high_4: "(p::nat) \<le> 271 \<Longrightarrow> p div 64 = 4 \<Longrightarrow> 128 + p mod 64 \<le> 143"
proof -
  assume a: "p \<le> 271" "p div 64 = 4"
  have "64 * (p div 64) + p mod 64 = p" by (rule mult_div_mod_eq)
  with a have "256 + p mod 64 \<le> 271" by simp
  then show ?thesis by simp
qed

lemma div_4096: "(cp::nat) div 4096 = cp div 64 div 64"
  by (simp add: div_mult2_eq)

lemma div_262144: "(cp::nat) div 262144 = cp div 64 div 64 div 64"
  by (simp add: div_mult2_eq)

lemma decode_encoded_cp:
  assumes "is_scalar cp"
  shows "utf8_decode None (utf8_encode_cp cp @ bs) = cp # utf8_decode None bs"
proof -
  from assms have le: "cp \<le> 0x10FFFF" and ns: "cp < 0xD800 \<or> 0xDFFF < cp"
    by (auto simp: is_scalar_def is_surrogate_def)
  have m: "cp mod 64 < 64" "cp div 64 mod 64 < 64" "cp div 4096 mod 64 < 64"
    by simp_all
  consider "cp \<le> 0x7F" | "0x7F < cp" "cp \<le> 0x7FF" | "0x7FF < cp" "cp \<le> 0xFFFF" | "0xFFFF < cp"
    by linarith
  then show ?thesis
  proof cases
    case 1
    then show ?thesis
      by (simp add: utf8_encode_cp_def unat_byte lead_byte_def)
  next
    case 2
    define b0 where "b0 = 0xC0 + cp div 64"
    define b1 where "b1 = 0x80 + cp mod 64"
    have enc: "utf8_encode_cp cp = [of_nat b0, of_nat b1]"
      using 2 by (simp add: utf8_encode_cp_def b0_def b1_def)
    have d: "2 \<le> cp div 64" "cp div 64 \<le> 31" using 2 by linarith+
    have "b0 < 256" "b1 < 256" using d m by (simp_all add: b0_def b1_def)
    then have u: "unat (of_nat b0 :: byte) = b0" "unat (of_nat b1 :: byte) = b1"
      by (simp_all only: unat_byte)
    have l: "lead_byte b0 = Need (cp div 64) 1 0x80 0xBF"
      using d by (simp add: lead_byte_def b0_def)
    have c: "\<not> b1 < 0x80" "\<not> 0xBF < b1" "cp div 64 * 64 + b1 mod 64 = cp"
      using m by (simp_all add: b1_def mod64_cont)
    show ?thesis by (simp add: enc u l c)
  next
    case 3
    define b0 where "b0 = 0xE0 + cp div 4096"
    define b1 where "b1 = 0x80 + cp div 64 mod 64"
    define b2 where "b2 = 0x80 + cp mod 64"
    have enc: "utf8_encode_cp cp = [of_nat b0, of_nat b1, of_nat b2]"
      using 3 by (simp add: utf8_encode_cp_def b0_def b1_def b2_def)
    have d: "cp div 4096 \<le> 15" using 3 by linarith
    have "b0 < 256" "b1 < 256" "b2 < 256" using d m by (simp_all add: b0_def b1_def b2_def)
    then have u: "unat (of_nat b0 :: byte) = b0" "unat (of_nat b1 :: byte) = b1"
      "unat (of_nat b2 :: byte) = b2"
      by (simp_all only: unat_byte)
    have l: "lead_byte b0 = Need (cp div 4096) 2 (if cp div 4096 = 0 then 0xA0 else 0x80)
        (if cp div 4096 = 13 then 0x9F else 0xBF)"
      using d by (simp add: lead_byte_def b0_def)
    have lo: "\<not> b1 < (if cp div 4096 = 0 then 0xA0 else 0x80)"
    proof (cases "cp div 4096 = 0")
      case True
      from 3 have "32 \<le> cp div 64" by linarith
      moreover from True have "cp div 64 div 64 = 0" by (simp add: div_4096)
      ultimately have "160 \<le> 128 + cp div 64 mod 64" by (rule cont_low_3)
      with True show ?thesis by (simp add: b1_def)
    next
      case False
      then show ?thesis by (simp add: b1_def)
    qed
    have hi: "\<not> (if cp div 4096 = 13 then 0x9F else 0xBF) < b1"
    proof (cases "cp div 4096 = 13")
      case True
      then have q: "cp div 64 div 64 = 13" by (simp add: div_4096)
      then have "cp div 64 < 896" by linarith
      then have "cp < 57344" by linarith
      with ns have "cp < 0xD800" by linarith
      then have "cp div 64 \<le> 863" by linarith
      then have "128 + cp div 64 mod 64 \<le> 159" using q by (rule cont_high_3)
      with True show ?thesis by (simp add: b1_def)
    next
      case False
      with m show ?thesis by (simp add: b1_def)
    qed
    have c: "\<not> b2 < 0x80" "\<not> 0xBF < b2"
      using m by (simp_all add: b2_def)
    have v: "(cp div 4096 * 64 + b1 mod 64) * 64 + b2 mod 64 = cp"
      unfolding b1_def b2_def by (simp add: mod64_cont div_4096)
    show ?thesis using v by (simp add: enc u l lo hi c)
  next
    case 4
    define b0 where "b0 = 0xF0 + cp div 262144"
    define b1 where "b1 = 0x80 + cp div 4096 mod 64"
    define b2 where "b2 = 0x80 + cp div 64 mod 64"
    define b3 where "b3 = 0x80 + cp mod 64"
    have enc: "utf8_encode_cp cp = [of_nat b0, of_nat b1, of_nat b2, of_nat b3]"
      using 4 by (simp add: utf8_encode_cp_def b0_def b1_def b2_def b3_def)
    have d: "cp div 262144 \<le> 4" using le by linarith
    have "b0 < 256" "b1 < 256" "b2 < 256" "b3 < 256"
      using d m by (simp_all add: b0_def b1_def b2_def b3_def)
    then have u: "unat (of_nat b0 :: byte) = b0" "unat (of_nat b1 :: byte) = b1"
      "unat (of_nat b2 :: byte) = b2" "unat (of_nat b3 :: byte) = b3"
      by (simp_all only: unat_byte)
    have l: "lead_byte b0 = Need (cp div 262144) 3 (if cp div 262144 = 0 then 0x90 else 0x80)
        (if cp div 262144 = 4 then 0x8F else 0xBF)"
      using d by (simp add: lead_byte_def b0_def)
    have lo: "\<not> b1 < (if cp div 262144 = 0 then 0x90 else 0x80)"
    proof (cases "cp div 262144 = 0")
      case True
      from 4 have "16 \<le> cp div 4096" by linarith
      moreover from True have "cp div 4096 div 64 = 0" by (simp add: div_4096 div_262144)
      ultimately have "144 \<le> 128 + cp div 4096 mod 64" by (rule cont_low_4)
      with True show ?thesis by (simp add: b1_def)
    next
      case False
      then show ?thesis by (simp add: b1_def)
    qed
    have hi: "\<not> (if cp div 262144 = 4 then 0x8F else 0xBF) < b1"
    proof (cases "cp div 262144 = 4")
      case True
      from le have "cp div 4096 \<le> 271" by linarith
      moreover from True have "cp div 4096 div 64 = 4" by (simp add: div_4096 div_262144)
      ultimately have "128 + cp div 4096 mod 64 \<le> 143" by (rule cont_high_4)
      with True show ?thesis by (simp add: b1_def)
    next
      case False
      with m show ?thesis by (simp add: b1_def)
    qed
    have c: "\<not> b2 < 0x80" "\<not> 0xBF < b2" "\<not> b3 < 0x80" "\<not> 0xBF < b3"
      using m by (simp_all add: b2_def b3_def)
    have v: "((cp div 262144 * 64 + b1 mod 64) * 64 + b2 mod 64) * 64 + b3 mod 64 = cp"
      unfolding b1_def b2_def b3_def by (simp add: mod64_cont div_4096 div_262144)
    show ?thesis using v by (simp add: enc u l lo hi c)
  qed
qed

lemma decode_encoded:
  "\<forall>cp\<in>set t. is_scalar cp \<Longrightarrow> utf8_decode None (concat (map utf8_encode_cp t)) = t"
  by (induction t) (simp_all add: decode_encoded_cp)

text \<open>
  The encoder writes the scalar values of the string, and the decoder reads them
  back, dropping a U+FEFF that comes first.
\<close>

lemma to_scalar_is_scalar: "is_scalar (to_scalar cp)"
  by (simp add: to_scalar_def is_scalar_def is_surrogate_def)

lemma to_scalar_id: "list_all is_scalar s \<Longrightarrow> map to_scalar s = s"
  by (induction s) (simp_all add: to_scalar_def)

lemma to_scalar_BOM: "to_scalar cp = 0xFEFF \<longleftrightarrow> cp = 0xFEFF"
  by (auto simp: to_scalar_def is_scalar_def is_surrogate_def)

lemma TextEncoder_scalars:
  "TextEncoder_encode s = concat (map utf8_encode_cp (map to_scalar s))"
  by (simp add: TextEncoder_encode_def comp_def)

lemma TextDecoder_roundtrip:
  "TextDecoder_decode (TextEncoder_encode s)
     = (case map to_scalar s of [] \<Rightarrow> [] | c # cs \<Rightarrow> if c = 0xFEFF then cs else c # cs)"
proof -
  have "\<forall>cp\<in>set (map to_scalar s). is_scalar cp"
    by (simp add: to_scalar_is_scalar)
  then have "utf8_decode None (concat (map utf8_encode_cp (map to_scalar s))) = map to_scalar s"
    by (rule decode_encoded)
  then show ?thesis
    by (simp only: TextDecoder_decode_def TextEncoder_scalars)
qed

lemma TextEncoder_append:
  "TextEncoder_encode (a @ b) = TextEncoder_encode a @ TextEncoder_encode b"
  by (simp add: TextEncoder_encode_def)

lemma encode_prefix_mono:
  assumes "i \<le> j"
  shows "length (TextEncoder_encode (take i str)) \<le> length (TextEncoder_encode (take j str))"
proof -
  from assms have "take i (take j str) = take i str"
    by (simp add: min_def)
  then have "take j str = take i str @ drop i (take j str)"
    by (metis append_take_drop_id)
  then have "TextEncoder_encode (take j str)
      = TextEncoder_encode (take i str) @ TextEncoder_encode (drop i (take j str))"
    by (metis TextEncoder_append)
  then show ?thesis by simp
qed

lemma longest_prefix:
  assumes "maxBytes < length (TextEncoder_encode (take (Suc k) str))"
    and "length (TextEncoder_encode (take j str)) \<le> maxBytes"
  shows "j \<le> k"
proof (rule ccontr)
  assume "\<not> j \<le> k"
  then have "Suc k \<le> j" by simp
  then have "length (TextEncoder_encode (take (Suc k) str))
      \<le> length (TextEncoder_encode (take j str))"
    by (rule encode_prefix_mono)
  with assms show False by simp
qed

lemma truncateBytes_within:
  "length (TextEncoder_encode str) \<le> maxBytes \<Longrightarrow> truncateBytes str maxBytes = str"
  by (simp add: truncateBytes_def)

lemma truncateBytes_cut:
  assumes "maxBytes < length (TextEncoder_encode str)"
  shows "\<exists>k<length str.
           truncateBytes str maxBytes = TextDecoder_decode (TextEncoder_encode (take k str)) @ TRUNCATED
         \<and> length (TextEncoder_encode (take k str)) \<le> maxBytes
         \<and> maxBytes < length (TextEncoder_encode (take (Suc k) str))"
proof -
  let ?t = "map to_scalar str"
  have le: "\<forall>cp\<in>set ?t. cp \<le> 0x10FFFF"
    using to_scalar_is_scalar by (auto simp: is_scalar_def)
  have e: "TextEncoder_encode (take n str) = concat (map utf8_encode_cp (take n ?t))" for n
    by (simp add: TextEncoder_scalars take_map)
  have e0: "TextEncoder_encode str = concat (map utf8_encode_cp ?t)"
    by (rule TextEncoder_scalars)
  from walk_back_prefix [OF le] assms obtain k where k: "k < length ?t"
    "walk_back (concat (map utf8_encode_cp ?t)) maxBytes
       = length (concat (map utf8_encode_cp (take k ?t)))"
    "length (concat (map utf8_encode_cp (take k ?t))) \<le> maxBytes"
    "maxBytes < length (concat (map utf8_encode_cp (take (Suc k) ?t)))"
    unfolding e0 by blast
  have "take (walk_back (TextEncoder_encode str) maxBytes) (TextEncoder_encode str)
      = TextEncoder_encode (take k str)"
    unfolding e0 e k(2) by (rule take_enc_prefix)
  with assms have "truncateBytes str maxBytes
      = TextDecoder_decode (TextEncoder_encode (take k str)) @ TRUNCATED"
    by (simp add: truncateBytes_def Let_def)
  moreover from k(1) have "k < length str" by simp
  ultimately show ?thesis using k(3,4) unfolding e by blast
qed

text \<open>
  C2, as stated, fails. A string that begins with U+FEFF loses that code point when
  it is cut, because the decoder drops a leading byte order mark: the result is not
  the prefix that fits. An unpaired surrogate of the string comes back as U+FFFD,
  because the encoder replaced it.
\<close>

theorem truncateBytes_counterexample:
  "truncateBytes bom_string 4 = lit ''a'' @ TRUNCATED
   \<and> TextEncoder_encode (take 2 bom_string) = [0xEF, 0xBB, 0xBF, 0x61]
   \<and> take 2 bom_string @ TRUNCATED \<noteq> lit ''a'' @ TRUNCATED
   \<and> truncateBytes surrogate_string 4 = [0xFFFD, 0x61] @ TRUNCATED
   \<and> TextEncoder_encode (take 2 surrogate_string) = [0xEF, 0xBF, 0xBD, 0x61]
   \<and> take 2 surrogate_string @ TRUNCATED \<noteq> [0xFFFD, 0x61] @ TRUNCATED"
proof -
  have e: "TextEncoder_encode bom_string = [0xEF, 0xBB, 0xBF, 0x61, 0x62, 0x63, 0x64]"
    "TextEncoder_encode surrogate_string = [0xEF, 0xBF, 0xBD, 0x61, 0x62, 0x63, 0x64]"
    "TextEncoder_encode (take 2 bom_string) = [0xEF, 0xBB, 0xBF, 0x61]"
    "TextEncoder_encode (take 2 surrogate_string) = [0xEF, 0xBF, 0xBD, 0x61]"
    by (simp_all add: bom_string_def surrogate_string_def TextEncoder_encode_def utf8_encode_cp_def
        to_scalar_def is_scalar_def is_surrogate_def lit_def)
  have w: "walk_back [0xEF, 0xBB, 0xBF, 0x61, 0x62, 0x63, 0x64] 4 = 4"
    "walk_back [0xEF, 0xBF, 0xBD, 0x61, 0x62, 0x63, 0x64] 4 = 4"
    by code_simp+
  have d: "TextDecoder_decode [0xEF, 0xBB, 0xBF, 0x61] = lit ''a''"
    "TextDecoder_decode [0xEF, 0xBF, 0xBD, 0x61] = [0xFFFD, 0x61]"
    by (simp_all add: TextDecoder_decode_def lead_byte_def lit_def)
  have t: "truncateBytes bom_string 4 = lit ''a'' @ TRUNCATED"
    "truncateBytes surrogate_string 4 = [0xFFFD, 0x61] @ TRUNCATED"
    by (simp_all add: truncateBytes_def e w d)
  have n: "take 2 bom_string @ TRUNCATED \<noteq> lit ''a'' @ TRUNCATED"
    "take 2 surrogate_string @ TRUNCATED \<noteq> [0xFFFD, 0x61] @ TRUNCATED"
    by (simp_all add: bom_string_def surrogate_string_def lit_def)
  from t e(3,4) n show ?thesis by blast
qed

text \<open>
  C2, amended. For every string and every byte budget: if the UTF-8 encoding of the
  string is at most the budget, \<open>truncateBytes\<close> returns the string unchanged.
  Otherwise the bytes kept are the encoding of a proper prefix of the string, the
  longest whose encoding fits the budget (one more code point does not fit, and no
  prefix that fits is longer), and the result is what these bytes decode to,
  followed by the marker. That is the prefix
  itself when the prefix holds no unpaired surrogate and does not begin with U+FEFF.
  In general every unpaired surrogate of the prefix comes back as U+FFFD, and a
  U+FEFF at the start of the prefix is missing from the result. The function is
  total: nothing in it throws.
\<close>

theorem truncateBytes_contract:
  "(length (TextEncoder_encode str) \<le> maxBytes \<longrightarrow> truncateBytes str maxBytes = str)
   \<and> (maxBytes < length (TextEncoder_encode str) \<longrightarrow>
        (\<exists>k<length str.
           length (TextEncoder_encode (take k str)) \<le> maxBytes
         \<and> maxBytes < length (TextEncoder_encode (take (Suc k) str))
         \<and> (\<forall>j. length (TextEncoder_encode (take j str)) \<le> maxBytes \<longrightarrow> j \<le> k)
         \<and> truncateBytes str maxBytes
             = TextDecoder_decode (TextEncoder_encode (take k str)) @ TRUNCATED
         \<and> (list_all is_scalar (take k str) \<and> take 1 (take k str) \<noteq> [0xFEFF] \<longrightarrow>
              truncateBytes str maxBytes = take k str @ TRUNCATED)
         \<and> (take 1 (take k str) \<noteq> [0xFEFF] \<longrightarrow>
              truncateBytes str maxBytes = map to_scalar (take k str) @ TRUNCATED)
         \<and> (take 1 (take k str) = [0xFEFF] \<longrightarrow>
              truncateBytes str maxBytes = map to_scalar (tl (take k str)) @ TRUNCATED)))"
proof (intro conjI impI)
  assume "length (TextEncoder_encode str) \<le> maxBytes"
  then show "truncateBytes str maxBytes = str" by (rule truncateBytes_within)
next
  assume "maxBytes < length (TextEncoder_encode str)"
  then obtain k where k: "k < length str"
    "truncateBytes str maxBytes = TextDecoder_decode (TextEncoder_encode (take k str)) @ TRUNCATED"
    "length (TextEncoder_encode (take k str)) \<le> maxBytes"
    "maxBytes < length (TextEncoder_encode (take (Suc k) str))"
    using truncateBytes_cut by blast
  have r: "TextDecoder_decode (TextEncoder_encode (take k str))
      = (case map to_scalar (take k str) of
           [] \<Rightarrow> [] | c # cs \<Rightarrow> if c = 0xFEFF then cs else c # cs)"
    by (rule TextDecoder_roundtrip)
  have a: "truncateBytes str maxBytes = map to_scalar (take k str) @ TRUNCATED"
    if nb: "take 1 (take k str) \<noteq> [0xFEFF]"
  proof (cases "take k str")
    case Nil
    with k(2) r show ?thesis by simp
  next
    case (Cons c cs)
    with nb have "to_scalar c \<noteq> 0xFEFF" by (simp add: to_scalar_BOM)
    with k(2) r Cons show ?thesis by simp
  qed
  have b: "truncateBytes str maxBytes = take k str @ TRUNCATED"
    if "list_all is_scalar (take k str) \<and> take 1 (take k str) \<noteq> [0xFEFF]"
    using a that by (simp add: to_scalar_id)
  have c: "truncateBytes str maxBytes = map to_scalar (tl (take k str)) @ TRUNCATED"
    if "take 1 (take k str) = [0xFEFF]"
  proof -
    from that obtain cs where "take k str = 0xFEFF # cs"
      by (cases "take k str") auto
    with k(2) r show ?thesis by (simp add: to_scalar_BOM)
  qed
  have m: "\<forall>j. length (TextEncoder_encode (take j str)) \<le> maxBytes \<longrightarrow> j \<le> k"
    using longest_prefix [OF k(4)] by blast
  from k(1,2,3,4) a b c m
  show "\<exists>k<length str.
           length (TextEncoder_encode (take k str)) \<le> maxBytes
         \<and> maxBytes < length (TextEncoder_encode (take (Suc k) str))
         \<and> (\<forall>j. length (TextEncoder_encode (take j str)) \<le> maxBytes \<longrightarrow> j \<le> k)
         \<and> truncateBytes str maxBytes
             = TextDecoder_decode (TextEncoder_encode (take k str)) @ TRUNCATED
         \<and> (list_all is_scalar (take k str) \<and> take 1 (take k str) \<noteq> [0xFEFF] \<longrightarrow>
              truncateBytes str maxBytes = take k str @ TRUNCATED)
         \<and> (take 1 (take k str) \<noteq> [0xFEFF] \<longrightarrow>
              truncateBytes str maxBytes = map to_scalar (take k str) @ TRUNCATED)
         \<and> (take 1 (take k str) = [0xFEFF] \<longrightarrow>
              truncateBytes str maxBytes = map to_scalar (tl (take k str)) @ TRUNCATED)"
    by blast
qed

text \<open>
  The lengths of the encodings of the prefixes of the examples, which fix the cut.
\<close>

lemma accented_prefix_length:
  assumes "k \<le> 5"
  shows "length (TextEncoder_encode (take k accented)) = (if k \<le> 1 then k else k + 1)"
proof -
  from assms consider "k = 0" | "k = 1" | "k = 2" | "k = 3" | "k = 4" | "k = 5"
    by arith
  then show ?thesis
    by cases
      (simp_all add: accented_def TextEncoder_encode_def utf8_encode_cp_def to_scalar_def
        is_scalar_def is_surrogate_def)
qed

lemma late_surrogate_prefix_length:
  assumes "k \<le> 5"
  shows "length (TextEncoder_encode (take k late_surrogate_string)) = (if k \<le> 4 then k else 7)"
proof -
  from assms consider "k = 0" | "k = 1" | "k = 2" | "k = 3" | "k = 4" | "k = 5"
    by arith
  then show ?thesis
    by cases
      (simp_all add: late_surrogate_string_def lit_def TextEncoder_encode_def utf8_encode_cp_def
        to_scalar_def is_scalar_def is_surrogate_def)
qed

lemma bom_prefix_length:
  assumes "k \<le> 5"
  shows "length (TextEncoder_encode (take k bom_string)) = (if k = 0 then 0 else k + 2)"
proof -
  from assms consider "k = 0" | "k = 1" | "k = 2" | "k = 3" | "k = 4" | "k = 5"
    by arith
  then show ?thesis
    by cases
      (simp_all add: bom_string_def lit_def TextEncoder_encode_def utf8_encode_cp_def
        to_scalar_def is_scalar_def is_surrogate_def)
qed

lemma surrogate_prefix_length:
  assumes "k \<le> 5"
  shows "length (TextEncoder_encode (take k surrogate_string)) = (if k = 0 then 0 else k + 2)"
proof -
  from assms consider "k = 0" | "k = 1" | "k = 2" | "k = 3" | "k = 4" | "k = 5"
    by arith
  then show ?thesis
    by cases
      (simp_all add: surrogate_string_def lit_def TextEncoder_encode_def utf8_encode_cp_def
        to_scalar_def is_scalar_def is_surrogate_def)
qed

theorem truncateBytes_contract_witness:
  "truncateBytes accented 6 = accented
   \<and> truncateBytes accented 2 = [0x68] @ TRUNCATED
   \<and> truncateBytes accented 3 = [0x68, 0xE9] @ TRUNCATED
   \<and> truncateBytes late_surrogate_string 2 = lit ''ab'' @ TRUNCATED
   \<and> truncateBytes late_surrogate_string 6 = lit ''abcd'' @ TRUNCATED
   \<and> truncateBytes bom_string 7 = bom_string
   \<and> truncateBytes surrogate_string 7 = surrogate_string
   \<and> truncateBytes bom_string 5 = lit ''ab'' @ TRUNCATED
   \<and> truncateBytes surrogate_string 5 = 0xFFFD # lit ''ab'' @ TRUNCATED
   \<and> length (TextEncoder_encode accented) = 6
   \<and> length (TextEncoder_encode late_surrogate_string) = 7
   \<and> length (TextEncoder_encode bom_string) = 7
   \<and> length (TextEncoder_encode surrogate_string) = 7"
proof -
  have l: "length accented = 5" "length late_surrogate_string = 5"
    by (simp_all add: accented_def late_surrogate_string_def lit_def)
  have la: "length (TextEncoder_encode accented) = 6"
    using accented_prefix_length [of 5] l(1) by simp
  have ll: "length (TextEncoder_encode late_surrogate_string) = 7"
    using late_surrogate_prefix_length [of 5] l(2) by simp
  have s: "list_all is_scalar (take k accented)" for k
    by (auto simp: accented_def is_scalar_def is_surrogate_def list_all_iff dest!: in_set_takeD)
  have b: "take 1 (take k accented) \<noteq> [0xFEFF]"
    "take 1 (take k late_surrogate_string) \<noteq> [0xFEFF]" for k
    by (cases k; simp add: accented_def late_surrogate_string_def lit_def)+
  have cut: "\<exists>k<5. length (TextEncoder_encode (take k accented)) \<le> n
        \<and> n < length (TextEncoder_encode (take (Suc k) accented))
        \<and> truncateBytes accented n = take k accented @ TRUNCATED" if "n < 6" for n
    using truncateBytes_contract [of accented n] that s b(1) by (auto simp: la l)
  have a6: "truncateBytes accented 6 = accented"
    using truncateBytes_contract [of accented 6] by (simp add: la)
  have a2: "truncateBytes accented 2 = [0x68] @ TRUNCATED"
  proof -
    from cut [of 2] obtain k where k: "k < 5"
      "length (TextEncoder_encode (take k accented)) \<le> 2"
      "2 < length (TextEncoder_encode (take (Suc k) accented))"
      "truncateBytes accented 2 = take k accented @ TRUNCATED"
      by auto
    from k(1,2,3) have "k = 1"
      using accented_prefix_length [of k] accented_prefix_length [of "Suc k"]
      by (simp split: if_splits)
    with k(4) show ?thesis by (simp add: accented_def)
  qed
  have a3: "truncateBytes accented 3 = [0x68, 0xE9] @ TRUNCATED"
  proof -
    from cut [of 3] obtain k where k: "k < 5"
      "length (TextEncoder_encode (take k accented)) \<le> 3"
      "3 < length (TextEncoder_encode (take (Suc k) accented))"
      "truncateBytes accented 3 = take k accented @ TRUNCATED"
      by auto
    from k(1,2,3) have "k = 2"
      using accented_prefix_length [of k] accented_prefix_length [of "Suc k"]
      by (simp split: if_splits)
    with k(4) show ?thesis by (simp add: accented_def)
  qed
  have e: "length (TextEncoder_encode bom_string) = 7"
    "length (TextEncoder_encode surrogate_string) = 7"
    by (simp_all add: bom_string_def surrogate_string_def lit_def TextEncoder_encode_def
        utf8_encode_cp_def to_scalar_def is_scalar_def is_surrogate_def)
  have b7: "truncateBytes bom_string 7 = bom_string"
    using truncateBytes_contract [of bom_string 7] by (simp add: e)
  have s7: "truncateBytes surrogate_string 7 = surrogate_string"
    using truncateBytes_contract [of surrogate_string 7] by (simp add: e)
  have lcut: "\<exists>k<5. length (TextEncoder_encode (take k late_surrogate_string)) \<le> n
        \<and> n < length (TextEncoder_encode (take (Suc k) late_surrogate_string))
        \<and> (list_all is_scalar (take k late_surrogate_string) \<longrightarrow>
             truncateBytes late_surrogate_string n = take k late_surrogate_string @ TRUNCATED)"
    if "n < 7" for n
    using truncateBytes_contract [of late_surrogate_string n] that b(2) by (auto simp: ll l)
  have l2: "truncateBytes late_surrogate_string 2 = lit ''ab'' @ TRUNCATED"
  proof -
    from lcut [of 2] obtain k where k: "k < 5"
      "length (TextEncoder_encode (take k late_surrogate_string)) \<le> 2"
      "2 < length (TextEncoder_encode (take (Suc k) late_surrogate_string))"
      "list_all is_scalar (take k late_surrogate_string) \<longrightarrow>
         truncateBytes late_surrogate_string 2 = take k late_surrogate_string @ TRUNCATED"
      by auto
    from k(1,2,3) have "k = 2"
      using late_surrogate_prefix_length [of k] late_surrogate_prefix_length [of "Suc k"]
      by (simp split: if_splits)
    with k(4) show ?thesis
      by (simp add: late_surrogate_string_def lit_def is_scalar_def is_surrogate_def)
  qed
  have l6: "truncateBytes late_surrogate_string 6 = lit ''abcd'' @ TRUNCATED"
  proof -
    from lcut [of 6] obtain k where k: "k < 5"
      "length (TextEncoder_encode (take k late_surrogate_string)) \<le> 6"
      "6 < length (TextEncoder_encode (take (Suc k) late_surrogate_string))"
      "list_all is_scalar (take k late_surrogate_string) \<longrightarrow>
         truncateBytes late_surrogate_string 6 = take k late_surrogate_string @ TRUNCATED"
      by auto
    from k(1,2,3) have "k = 4"
      using late_surrogate_prefix_length [of k] late_surrogate_prefix_length [of "Suc k"]
      by (simp split: if_splits)
    with k(4) show ?thesis
      by (simp add: late_surrogate_string_def lit_def is_scalar_def is_surrogate_def)
  qed
  have l5: "length bom_string = 5" "length surrogate_string = 5"
    by (simp_all add: bom_string_def surrogate_string_def lit_def)
  have b5: "truncateBytes bom_string 5 = lit ''ab'' @ TRUNCATED"
  proof -
    from truncateBytes_contract [of bom_string 5] obtain k where k: "k < 5"
      "length (TextEncoder_encode (take k bom_string)) \<le> 5"
      "5 < length (TextEncoder_encode (take (Suc k) bom_string))"
      "take 1 (take k bom_string) = [0xFEFF] \<longrightarrow>
         truncateBytes bom_string 5 = map to_scalar (tl (take k bom_string)) @ TRUNCATED"
      by (auto simp: e l5)
    from k(1,2,3) have "k = 3"
      using bom_prefix_length [of k] bom_prefix_length [of "Suc k"]
      by (simp split: if_splits)
    with k(4) show ?thesis
      by (simp add: bom_string_def lit_def to_scalar_def is_scalar_def is_surrogate_def)
  qed
  have s5: "truncateBytes surrogate_string 5 = 0xFFFD # lit ''ab'' @ TRUNCATED"
  proof -
    from truncateBytes_contract [of surrogate_string 5] obtain k where k: "k < 5"
      "length (TextEncoder_encode (take k surrogate_string)) \<le> 5"
      "5 < length (TextEncoder_encode (take (Suc k) surrogate_string))"
      "take 1 (take k surrogate_string) \<noteq> [0xFEFF] \<longrightarrow>
         truncateBytes surrogate_string 5 = map to_scalar (take k surrogate_string) @ TRUNCATED"
      by (auto simp: e l5)
    from k(1,2,3) have "k = 3"
      using surrogate_prefix_length [of k] surrogate_prefix_length [of "Suc k"]
      by (simp split: if_splits)
    with k(4) show ?thesis
      by (simp add: surrogate_string_def lit_def to_scalar_def is_scalar_def is_surrogate_def)
  qed
  from a6 a2 a3 l2 l6 b7 s7 b5 s5 la ll e show ?thesis by blast
qed

end
